theory Spec2Isabelle
  imports Main "HOL-Library.Sublist" "HOL-Library.AList" "HOL-Library.Word"
begin

section \<open>JavaScript values\<close>

text \<open>
  The values that travel through \<^verbatim>\<open>remoteObject.ts\<close> and \<^verbatim>\<open>endpoint.ts\<close>.
  Numbers are the integers (request ids, channel ids and the counter stay below
  \<open>2^53\<close>, where a double is exact; \<open>NaN\<close> and fractions are outside the model).
  An object is the list of its own enumerable properties; on a repeated key the first
  entry is the property. \<open>JHostile\<close> is an object whose own keys cannot be enumerated
  (a proxy whose \<open>ownKeys\<close> trap throws): \<open>Object.values\<close> throws on it, every other
  operation goes to its target. \<open>JError msg\<close> is an instance of \<open>Error\<close> with that
  message (the \<open>stack\<close> that engines add to it is left out). \<open>JFun k\<close> is the
  host function number \<open>k\<close>. \<open>JProxy k\<close> is the proxy
  object number \<open>k\<close> of the realm (the objects made by \<open>createProxy\<close>).
\<close>

datatype jsval =
    JUndefined
  | JNull
  | JBool bool
  | JNum int
  | JStr string
  | JArr "jsval list"
  | JObj "(string \<times> jsval) list"
  | JHostile "(string \<times> jsval) list"
  | JError string
  | JFun nat
  | JProxy nat

fun typeof :: "jsval \<Rightarrow> string" where
  "typeof JUndefined = ''undefined''"
| "typeof JNull = ''object''"
| "typeof (JBool b) = ''boolean''"
| "typeof (JNum n) = ''number''"
| "typeof (JStr s) = ''string''"
| "typeof (JArr xs) = ''object''"
| "typeof (JObj ps) = ''object''"
| "typeof (JHostile ps) = ''object''"
| "typeof (JError m) = ''object''"
| "typeof (JFun k) = ''function''"
| "typeof (JProxy k) = ''function''"

text \<open>Truthiness: what \<open>if (v)\<close> and \<open>!v\<close> test.\<close>

fun truthy :: "jsval \<Rightarrow> bool" where
  "truthy JUndefined = False"
| "truthy JNull = False"
| "truthy (JBool b) = b"
| "truthy (JNum n) = (n \<noteq> 0)"
| "truthy (JStr s) = (s \<noteq> [])"
| "truthy v = True"

fun isArray :: "jsval \<Rightarrow> bool" where
  "isArray (JArr xs) = True"
| "isArray v = False"

text \<open>
  \<open>a === b\<close>. Primitives are compared by value. Two objects are strictly equal only
  when they are the same object; the model has no object identity for data, and the
  comparisons of the source are between a field of an incoming message and a value
  held by the realm, which are never the same object: on objects the answer is False.
\<close>

fun strict_eq :: "jsval \<Rightarrow> jsval \<Rightarrow> bool" where
  "strict_eq JUndefined b = (b = JUndefined)"
| "strict_eq JNull b = (b = JNull)"
| "strict_eq (JBool x) b = (b = JBool x)"
| "strict_eq (JNum x) b = (b = JNum x)"
| "strict_eq (JStr x) b = (b = JStr x)"
| "strict_eq a b = False"

text \<open>\<open>s.includes(pat)\<close> on strings.\<close>

primrec str_includes :: "string \<Rightarrow> string \<Rightarrow> bool" where
  "str_includes [] pat = (pat = [])"
| "str_includes (c # cs) pat = (prefix pat (c # cs) \<or> str_includes cs pat)"

text \<open>
  The property names an array owns besides \<open>length\<close>: the canonical decimal
  numerals below its length.
\<close>

definition is_digit :: "char \<Rightarrow> bool" where
  "is_digit c = (c \<in> set ''0123456789'')"

definition array_index :: "string \<Rightarrow> nat option" where
  "array_index p =
     (if p \<noteq> [] \<and> list_all is_digit p \<and> (length p = 1 \<or> hd p \<noteq> CHR ''0'')
      then Some (foldl (\<lambda>n c. 10 * n + (of_char c - 48)) 0 p)
      else None)"

text \<open>\<open>Object.prototype.hasOwnProperty.call(obj, p)\<close> on a non-null object.\<close>

fun hasOwnProperty :: "jsval \<Rightarrow> string \<Rightarrow> bool" where
  "hasOwnProperty (JObj ps) p = (map_of ps p \<noteq> None)"
| "hasOwnProperty (JHostile ps) p = (map_of ps p \<noteq> None)"
| "hasOwnProperty (JArr xs) p =
     (p = ''length'' \<or> (case array_index p of Some i \<Rightarrow> i < length xs | None \<Rightarrow> False))"
| "hasOwnProperty (JError m) p = (p = ''message'')"
| "hasOwnProperty v p = False"

text \<open>
  \<open>v[p]\<close> for a value that is neither nullish nor a proxy of the realm, and a name
  \<open>p\<close> that \<open>Object.prototype\<close>, \<open>Array.prototype\<close> and the wrappers of the
  primitives do not define (the source reads \<open>channel\<close>, \<open>payload\<close>, \<open>id\<close>,
  \<open>type\<close>, \<open>keyChain\<close>, \<open>args\<close>, \<open>data\<close>, \<open>message\<close>, and the own properties
  that \<open>assertPropertyExists\<close> has let through): the own property, else undefined.
\<close>

fun get_prop :: "jsval \<Rightarrow> string \<Rightarrow> jsval" where
  "get_prop (JObj ps) p = (case map_of ps p of Some v \<Rightarrow> v | None \<Rightarrow> JUndefined)"
| "get_prop (JHostile ps) p = (case map_of ps p of Some v \<Rightarrow> v | None \<Rightarrow> JUndefined)"
| "get_prop (JArr xs) p =
     (if p = ''length'' then JNum (int (length xs))
      else (case array_index p of
              Some i \<Rightarrow> if i < length xs then xs ! i else JUndefined
            | None \<Rightarrow> JUndefined))"
| "get_prop (JError m) p = (if p = ''message'' then JStr m else JUndefined)"
| "get_prop v p = JUndefined"

text \<open>
  \<open>Object.values(data)\<close>: the own enumerable values; \<open>None\<close> when it throws.
  The message of an \<open>Error\<close> is not enumerable; a function and a proxy of the
  realm have no enumerable property of their own.
\<close>

fun object_values :: "jsval \<Rightarrow> jsval list option" where
  "object_values (JObj ps) = Some (map snd (AList.clearjunk ps))"
| "object_values (JHostile ps) = None"
| "object_values (JArr xs) = Some xs"
| "object_values (JStr cs) = Some (map (\<lambda>c. JStr [c]) cs)"
| "object_values JUndefined = None"
| "object_values JNull = None"
| "object_values v = Some []"

definition apos :: string where
  "apos = [CHR 0x27]"

section \<open>Endpoints and the realm\<close>

text \<open>
  A \<open>PostMessageEndpoint\<close> is either a transport handed in from outside (\<open>Base b\<close>)
  or the object returned by a call of \<open>createChannel\<close>: \<open>Chan parent channelName n\<close>,
  where \<open>n\<close> numbers the calls of \<open>createChannel\<close> in the realm, so that two calls
  return two endpoints, as in the source.
\<close>

datatype endpoint =
    Base nat
  | Chan endpoint jsval nat

text \<open>
  The listeners of the source: the closure \<open>wrap\<close> subscribes (it captures \<open>ep\<close>),
  the closure \<open>expose\<close> subscribes (it captures \<open>obj\<close> and \<open>ep\<close>), the
  \<open>channelListener\<close> closure of \<open>createChannel\<close> (it captures the channel it feeds),
  and a callback of the application, known by its number.
\<close>

datatype listener =
    LWrap endpoint
  | LExpose jsval endpoint
  | LChannel endpoint
  | LUser nat

text \<open>
  The state of a promise made by \<open>createPromise\<close>. \<open>Pending\<close>: its resolving
  functions have not been called. \<open>ResolvedWith v\<close>: it is fulfilled with \<open>v\<close>.
  \<open>RejectedWith e\<close>: it is rejected with \<open>e\<close>. \<open>Adopted v\<close>: it was resolved with
  the thenable \<open>v\<close> (a value whose \<open>then\<close> is callable) and is neither fulfilled nor
  rejected yet. \<open>Following p\<close>: it was resolved with a proxy of the realm, the
  \<open>then\<close> of that proxy has issued an await request whose promise is number \<open>p\<close>,
  and it will be fulfilled with the value that promise is fulfilled with.
\<close>

datatype promise_state =
    Pending
  | ResolvedWith jsval
  | RejectedWith jsval
  | Adopted jsval
  | Following nat

text \<open>
  One object made by \<open>createProxy\<close>: the endpoint and key chain its traps close
  over, and its \<open>getters\<close> map from property name to the child proxy.
\<close>

record proxy_node =
  p_ep :: endpoint
  p_keyChain :: "string list"
  p_getters :: "(string \<times> nat) list"

text \<open>
  The state of one realm. \<open>uniqueInRealmId\<close>, \<open>promiseMap\<close> are the module-level
  variables of \<^verbatim>\<open>remoteObject.ts\<close>; \<open>promises\<close> holds the state of the promises
  made by \<open>createPromise\<close>, by number; \<open>randomUUID k\<close> is the 128-bit identifier
  that the \<open>k\<close>-th call of \<open>crypto.randomUUID()\<close> draws, \<open>uuid_calls\<close> counts the
  calls made;
  \<open>listeners\<close> holds every subscription, in order, with the endpoint it is on;
  \<open>outbox\<close> holds what was posted on the transports, in order; \<open>console\<close> holds
  the calls of \<open>console.error\<close>.
\<close>

record realm =
  uniqueInRealmId :: int
  randomUUID :: "nat \<Rightarrow> 128 word"
  uuid_calls :: nat
  promiseMap :: "(jsval \<times> nat) list"
  promises :: "promise_state list"
  proxies :: "proxy_node list"
  listeners :: "(endpoint \<times> listener) list"
  channels :: nat
  outbox :: "(nat \<times> jsval) list"
  console :: "(string \<times> jsval) list"

text \<open>
  \<open>markedObj\<close> is a module-level \<open>WeakSet\<close> that is created empty; the module
  never adds to it and does not export it.
\<close>

definition markedObj :: "jsval list" where
  "markedObj = []"

definition markedObj_has :: "jsval \<Rightarrow> bool" where
  "markedObj_has v = (v \<in> set markedObj)"

definition console_error :: "string \<Rightarrow> jsval \<Rightarrow> realm \<Rightarrow> realm" where
  "console_error label v s = s\<lparr>console := console s @ [(label, v)]\<rparr>"

subsection \<open>endpoint.ts: createChannel\<close>

text \<open>
  \<open>postMessage\<close>: a transport records the message (a transport that throws is outside
  the model); a channel endpoint posts \<open>{channel, payload}\<close> on its parent.
\<close>

fun postMessage :: "endpoint \<Rightarrow> jsval \<Rightarrow> realm \<Rightarrow> realm" where
  "postMessage (Base b) v s = s\<lparr>outbox := outbox s @ [(b, v)]\<rparr>"
| "postMessage (Chan parent channelName n) v s =
     postMessage parent (JObj [(''channel'', channelName), (''payload'', v)]) s"

fun is_user :: "listener \<Rightarrow> bool" where
  "is_user (LUser k) = True"
| "is_user l = False"

text \<open>
  \<open>addEventListener\<close> and \<open>removeEventListener\<close>. The listeners of a channel are a
  \<open>Set\<close>: adding a callback that is already there changes nothing. The closures of
  \<open>wrap\<close>, \<open>expose\<close> and \<open>createChannel\<close> are new function objects at every
  call, so adding one always adds. A transport is taken to keep its listeners the
  same way.
\<close>

definition addEventListener :: "endpoint \<Rightarrow> string \<Rightarrow> listener \<Rightarrow> realm \<Rightarrow> realm" where
  "addEventListener ep ty l s =
     (if ty = ''message'' then
        (if is_user l \<and> (ep, l) \<in> set (listeners s) then s
         else s\<lparr>listeners := listeners s @ [(ep, l)]\<rparr>)
      else s)"

definition removeEventListener :: "endpoint \<Rightarrow> string \<Rightarrow> listener \<Rightarrow> realm \<Rightarrow> realm" where
  "removeEventListener ep ty l s =
     (if ty = ''message'' then s\<lparr>listeners := removeAll (ep, l) (listeners s)\<rparr> else s)"

definition createChannel :: "endpoint \<Rightarrow> jsval \<Rightarrow> realm \<Rightarrow> endpoint \<times> realm" where
  "createChannel endpoint channelName s =
     (let c = Chan endpoint channelName (channels s);
          s1 = addEventListener endpoint ''message'' (LChannel c) (s\<lparr>channels := channels s + 1\<rparr>)
      in (c, s1))"

text \<open>The \<open>channelListeners\<close> set of a channel endpoint, in insertion order.\<close>

definition channelListeners :: "endpoint \<Rightarrow> realm \<Rightarrow> listener list" where
  "channelListeners c s = map snd (filter (\<lambda>e. fst e = c) (listeners s))"

text \<open>
  The \<open>data\<close> of \<open>new MessageEvent('message', {data: v})\<close>: an undefined member
  of the init dictionary counts as absent, and the default of \<open>data\<close> is null.
\<close>

definition message_event_data :: "jsval \<Rightarrow> jsval" where
  "message_event_data v = (if v = JUndefined then JNull else v)"

text \<open>
  The closure \<open>channelListener\<close> of \<open>createChannel\<close>, run on the data of an event of
  the parent: the calls it makes, as pairs of the listener called and the data of the
  event it is called with, in order.
\<close>

fun channelListener :: "endpoint \<Rightarrow> jsval \<Rightarrow> realm \<Rightarrow> (listener \<times> jsval) list" where
  "channelListener (Chan parent channelName n) m s =
     (if truthy m \<and> typeof m = ''object'' \<and> strict_eq (get_prop m ''channel'') channelName
      then map (\<lambda>l. (l, message_event_data (get_prop m ''payload'')))
             (channelListeners (Chan parent channelName n) s)
      else [])"
| "channelListener (Base b) m s = []"

subsection \<open>remoteObject.ts: assertions\<close>

text \<open>
  A \<open>throw\<close> is the left summand, with the value thrown. \<open>assertValidKeyChain\<close>
  returns the keys it has found to be strings.
\<close>

definition unsafe_key :: "jsval \<Rightarrow> bool" where
  "unsafe_key key =
     (case key of
        JStr k \<Rightarrow> str_includes k ''__proto__'' \<or> str_includes k ''prototype''
                  \<or> str_includes k ''constructor''
      | _ \<Rightarrow> True)"

fun key_string :: "jsval \<Rightarrow> string" where
  "key_string (JStr k) = k"
| "key_string v = []"

definition assertValidKeyChain :: "jsval \<Rightarrow> jsval + string list" where
  "assertValidKeyChain keyChain =
     (case keyChain of
        JArr ks \<Rightarrow>
          if list_ex unsafe_key ks
          then Inl (JError ''Invalid keyChain: contains unsafe property names'')
          else Inr (map key_string ks)
      | _ \<Rightarrow> Inl (JError ''Invalid keyChain: must be an array''))"

definition assertValidRPCCall :: "jsval \<Rightarrow> jsval + unit" where
  "assertValidRPCCall d =
     (if \<not> truthy d \<or> typeof d \<noteq> ''object''
      then Inl (JError ''Invalid RPC call: not an object'')
      else if get_prop d ''id'' = JUndefined \<or> \<not> truthy (get_prop d ''type'')
      then Inl (JError ''Invalid RPC call: missing id or type'')
      else (case assertValidKeyChain (get_prop d ''keyChain'') of
              Inl e \<Rightarrow> Inl e
            | Inr ks \<Rightarrow>
                if (get_prop d ''type'' = JStr ''call'' \<or> get_prop d ''type'' = JStr ''construct'')
                   \<and> \<not> isArray (get_prop d ''args'')
                then Inl (JError ''Invalid RPC call: args must be an array'')
                else Inr ()))"

definition assertValidRPCResponse :: "jsval \<Rightarrow> jsval + unit" where
  "assertValidRPCResponse d =
     (if \<not> truthy d \<or> typeof d \<noteq> ''object''
      then Inl (JError ''Invalid RPC response: not an object'')
      else if get_prop d ''id'' = JUndefined \<or> get_prop d ''type'' \<noteq> JStr ''response''
      then Inl (JError ''Invalid RPC response: missing id or invalid type'')
      else Inr ())"

definition assertIsFunction :: "jsval \<Rightarrow> string \<Rightarrow> jsval + unit" where
  "assertIsFunction target name =
     (if typeof target \<noteq> ''function''
      then Inl (JError (''Target '' @ apos @ name @ apos @ '' is not a function''))
      else Inr ())"

definition assertPropertyExists :: "jsval \<Rightarrow> string \<Rightarrow> jsval + unit" where
  "assertPropertyExists obj property =
     (if \<not> truthy obj \<or> typeof obj \<noteq> ''object''
      then Inl (JError (''Cannot access property '' @ apos @ property @ apos @ '' on non-object''))
      else if \<not> hasOwnProperty obj property
      then Inl (JError (''Property '' @ apos @ property @ apos @ '' not found or not accessible''))
      else Inr ())"

subsection \<open>remoteObject.ts: getId, createPromise, the proxies\<close>

definition MAX_SAFE_INTEGER :: int where
  "MAX_SAFE_INTEGER = 2 ^ 53 - 1"

text \<open>
  \<open>crypto.randomUUID()\<close> returns the text of a 128-bit identifier: 32 lower-case
  hexadecimal digits in groups of 8, 4, 4, 4 and 12, with dashes between them.
\<close>

definition hex_digit :: "nat \<Rightarrow> char" where
  "hex_digit n = (if n < 10 then char_of (48 + n) else char_of (87 + n))"

fun hex_of :: "nat \<Rightarrow> nat \<Rightarrow> string" where
  "hex_of 0 n = []"
| "hex_of (Suc k) n = hex_of k (n div 16) @ [hex_digit (n mod 16)]"

definition dashed :: "string \<Rightarrow> string" where
  "dashed h = take 8 h @ ''-'' @ take 4 (drop 8 h) @ ''-'' @ take 4 (drop 12 h) @ ''-''
              @ take 4 (drop 16 h) @ ''-'' @ drop 20 h"

definition uuid_text :: "128 word \<Rightarrow> string" where
  "uuid_text w = dashed (hex_of 32 (unat w))"

definition getId :: "realm \<Rightarrow> jsval \<times> realm" where
  "getId s =
     (if uniqueInRealmId s > MAX_SAFE_INTEGER - 1000
      then (JStr (uuid_text (randomUUID s (uuid_calls s))), s\<lparr>uuid_calls := uuid_calls s + 1\<rparr>)
      else (JNum (uniqueInRealmId s + 1), s\<lparr>uniqueInRealmId := uniqueInRealmId s + 1\<rparr>))"

text \<open>
  \<open>createPromise\<close>: the new promise is pending, and the map takes the pair of its
  resolving functions under the id (\<open>Map.set\<close> replaces the entry of a key it has).
  The promise is returned by its number.
\<close>

definition createPromise :: "jsval \<Rightarrow> realm \<Rightarrow> nat \<times> realm" where
  "createPromise rid s =
     (let p = length (promises s)
      in (p, s\<lparr>promiseMap := AList.update rid p (promiseMap s),
               promises := promises s @ [Pending]\<rparr>))"

definition createProxy :: "endpoint \<Rightarrow> string list \<Rightarrow> realm \<Rightarrow> nat \<times> realm" where
  "createProxy ep keyChain s =
     (length (proxies s),
      s\<lparr>proxies := proxies s @ [\<lparr>p_ep = ep, p_keyChain = keyChain, p_getters = []\<rparr>]\<rparr>)"

text \<open>
  The \<open>get\<close> trap with a string key (\<open>mapHelper\<close> on the \<open>getters\<close> of the proxy);
  symbol keys, for which the trap returns null, are not modelled. A number that names
  no proxy of the realm reads as undefined.
\<close>

definition proxy_get :: "nat \<Rightarrow> string \<Rightarrow> realm \<Rightarrow> jsval \<times> realm" where
  "proxy_get k p s =
     (if k < length (proxies s) then
        (let node = proxies s ! k in
         case map_of (p_getters node) p of
           Some q \<Rightarrow> (JProxy q, s)
         | None \<Rightarrow>
             (let (q, s1) = createProxy (p_ep node) (p_keyChain node @ [p]) s
              in (JProxy q,
                  s1\<lparr>proxies := (proxies s1)[k := node\<lparr>p_getters := p_getters node @ [(p, q)]\<rparr>]\<rparr>)))
      else (JUndefined, s))"

text \<open>
  \<open>v.p\<close> where \<open>v\<close> is not nullish and may be a proxy of the realm: the \<open>get\<close>
  trap of a proxy makes the child proxy on first access.
\<close>

fun js_get :: "jsval \<Rightarrow> string \<Rightarrow> realm \<Rightarrow> jsval \<times> realm" where
  "js_get (JProxy k) p s = proxy_get k p s"
| "js_get v p s = (get_prop v p, s)"

subsection \<open>remoteObject.ts: expose, wrap and the codec\<close>

definition expose :: "jsval \<Rightarrow> endpoint \<Rightarrow> realm \<Rightarrow> realm" where
  "expose obj ep s = addEventListener ep ''message'' (LExpose obj ep) s"

text \<open>\<open>wrap\<close> subscribes its handler and returns \<open>createProxy()\<close>.\<close>

definition wrap :: "endpoint \<Rightarrow> realm \<Rightarrow> jsval \<times> realm" where
  "wrap ep s =
     (let s1 = addEventListener ep ''message'' (LWrap ep) s;
          (k, s2) = createProxy ep [] s1
      in (JProxy k, s2))"

text \<open>
  \<open>wrapArg(data, ep, wrap)\<close>. The parameter \<open>wrap\<close> is \<open>wrap_param\<close>; the three
  branches of the source assign to it, and the value it has after them decides.
\<close>

definition wrapArg :: "jsval \<Rightarrow> endpoint \<Rightarrow> bool \<Rightarrow> realm \<Rightarrow> jsval \<times> realm" where
  "wrapArg data ep wrap_param s =
     (let w =
        (if typeof data = ''function'' then True
         else if truthy data \<and> typeof data = ''object'' \<and> \<not> isArray data \<and> data \<noteq> JNull then
           (case object_values data of
              Some vs \<Rightarrow> list_ex (\<lambda>v. typeof v = ''function'') vs
            | None \<Rightarrow> False)
         else if markedObj_has data then True
         else wrap_param)
      in if w then
           (let (rid, s1) = getId s;
                (channelEp, s2) = createChannel ep rid s1;
                s3 = expose data channelEp s2
            in (JObj [(''type'', JStr ''wraped''), (''id'', rid)], s3))
         else (JObj [(''type'', JStr ''any''), (''data'', data)], s))"

fun wrapArgs :: "jsval list \<Rightarrow> endpoint \<Rightarrow> realm \<Rightarrow> jsval list \<times> realm" where
  "wrapArgs [] ep s = ([], s)"
| "wrapArgs (arg # args) ep s =
     (let (x, s1) = wrapArg arg ep False s;
          (xs, s2) = wrapArgs args ep s1
      in (x # xs, s2))"

text \<open>
  Reading a property of undefined or null throws a \<open>TypeError\<close>; its message is the
  engine's (here V8's wording).
\<close>

definition type_error_read :: "jsval \<Rightarrow> string \<Rightarrow> jsval" where
  "type_error_read v p =
     JError (''Cannot read properties of '' @ (if v = JNull then ''null'' else ''undefined'')
             @ '' (reading '' @ apos @ p @ apos @ '')'')"

definition unwrapArg :: "jsval \<Rightarrow> endpoint \<Rightarrow> realm \<Rightarrow> (jsval + jsval) \<times> realm" where
  "unwrapArg data ep s =
     (if data = JUndefined \<or> data = JNull then (Inl (type_error_read data ''type''), s)
      else
        (let (ty, s1) = js_get data ''type'' s in
         if ty = JStr ''any'' then
           (let (v, s2) = js_get data ''data'' s1 in (Inr v, s2))
         else
           (let (ty2, s2) = js_get data ''type'' s1 in
            if ty2 = JStr ''wraped'' then
              (let (rid, s3) = js_get data ''id'' s2;
                   (channelEp, s4) = createChannel ep rid s3;
                   (proxy, s5) = wrap channelEp s4
               in (Inr proxy, s5))
            else (Inr JUndefined, s2))))"

text \<open>\<open>args.map(a => unwrapArg(a, ep))\<close>: the first throw ends the loop.\<close>

fun unwrapArgs :: "jsval list \<Rightarrow> endpoint \<Rightarrow> realm \<Rightarrow> (jsval + jsval list) \<times> realm" where
  "unwrapArgs [] ep s = (Inr [], s)"
| "unwrapArgs (a # as) ep s =
     (case unwrapArg a ep s of
        (Inl e, s1) \<Rightarrow> (Inl e, s1)
      | (Inr v, s1) \<Rightarrow>
          (case unwrapArgs as ep s1 of
             (Inl e, s2) \<Rightarrow> (Inl e, s2)
           | (Inr vs, s2) \<Rightarrow> (Inr (v # vs), s2)))"

fun array_elems :: "jsval \<Rightarrow> jsval list" where
  "array_elems (JArr xs) = xs"
| "array_elems v = []"

subsection \<open>remoteObject.ts: the traps of the proxy\<close>

text \<open>
  The \<open>apply\<close> trap of a proxy made by \<open>createProxy(keyChain)\<close> under \<open>wrap(ep)\<close>.
  The promise of the request is returned by its number (in the \<open>then\<close> branch the
  source returns \<open>p.then(...args)\<close>, a promise that follows it).
\<close>

definition proxy_apply :: "endpoint \<Rightarrow> string list \<Rightarrow> jsval list \<Rightarrow> realm \<Rightarrow> nat \<times> realm" where
  "proxy_apply ep keyChain args s =
     (if keyChain \<noteq> [] \<and> last keyChain = ''then'' then
        (let (rid, s1) = getId s;
             (p, s2) = createPromise rid s1;
             s3 = postMessage ep
                    (JObj [(''id'', rid), (''type'', JStr ''await''),
                           (''keyChain'', JArr (map JStr (butlast keyChain)))]) s2
         in (p, s3))
      else
        (let (rid, s1) = getId s;
             (p, s2) = createPromise rid s1;
             (wargs, s3) = wrapArgs args ep s2;
             s4 = postMessage ep
                    (JObj [(''id'', rid), (''type'', JStr ''call''),
                           (''keyChain'', JArr (map JStr keyChain)), (''args'', JArr wargs)]) s3
         in (p, s4)))"

definition proxy_construct :: "endpoint \<Rightarrow> string list \<Rightarrow> jsval list \<Rightarrow> realm \<Rightarrow> nat \<times> realm" where
  "proxy_construct ep keyChain args s =
     (let (rid, s1) = getId s;
          (p, s2) = createPromise rid s1;
          (wargs, s3) = wrapArgs args ep s2;
          s4 = postMessage ep
                 (JObj [(''id'', rid), (''type'', JStr ''construct''),
                        (''keyChain'', JArr (map JStr keyChain)), (''args'', JArr wargs)]) s3
      in (p, s4))"

text \<open>Calling the proxy object number \<open>k\<close> of the realm.\<close>

definition call_proxy :: "nat \<Rightarrow> jsval list \<Rightarrow> realm \<Rightarrow> (nat \<times> realm) option" where
  "call_proxy k args s =
     (if k < length (proxies s)
      then Some (proxy_apply (p_ep (proxies s ! k)) (p_keyChain (proxies s ! k)) args s)
      else None)"

definition new_proxy :: "nat \<Rightarrow> jsval list \<Rightarrow> realm \<Rightarrow> (nat \<times> realm) option" where
  "new_proxy k args s =
     (if k < length (proxies s)
      then Some (proxy_construct (p_ep (proxies s ! k)) (p_keyChain (proxies s ! k)) args s)
      else None)"

subsection \<open>Promises: what calling a resolving function does\<close>

text \<open>
  \<open>follows ps q p\<close>: promise \<open>q\<close> is \<open>p\<close>, or follows a promise that follows
  \<open>p\<close>. A promise follows one that was made after it.
\<close>

function follows :: "promise_state list \<Rightarrow> nat \<Rightarrow> nat \<Rightarrow> bool" where
  "follows ps q p =
     (if q < length ps then
        (if q = p then True
         else (case ps ! q of
                 Following r \<Rightarrow> (if q < r then follows ps r p else False)
               | _ \<Rightarrow> False))
      else False)"
  by pat_completeness auto
termination
  by (relation "measure (\<lambda>(ps, q, p). length ps - q)") auto

text \<open>
  Fulfilling promise \<open>p\<close> with \<open>v\<close>: the reaction that a following promise has
  registered on \<open>p\<close> calls its resolving function with \<open>v\<close>, so \<open>p\<close> and every
  promise that follows it are fulfilled with \<open>v\<close>.
\<close>

definition fulfil :: "nat \<Rightarrow> jsval \<Rightarrow> promise_state list \<Rightarrow> promise_state list" where
  "fulfil p v ps = map (\<lambda>q. if follows ps q p then ResolvedWith v else ps ! q) [0..<length ps]"

text \<open>
  \<open>p.res(v)\<close>, the resolving function that \<open>createPromise\<close> stored. The first call
  decides, later calls do nothing. A value whose \<open>then\<close> is not callable fulfils the
  promise. A proxy of the realm answers \<open>then\<close> with its child proxy, which is
  callable: the promise is locked to the proxy and a job is queued that calls that
  \<open>then\<close> (\<open>ThenJob p c\<close>: promise \<open>p\<close>, child proxy \<open>c\<close>). For any other value
  with a callable \<open>then\<close> the promise is locked to it, and what that \<open>then\<close> does
  with the resolving functions it is called with is not modelled.
\<close>

datatype job = ThenJob nat nat

definition resolve_promise :: "nat \<Rightarrow> jsval \<Rightarrow> realm \<Rightarrow> job option \<times> realm" where
  "resolve_promise p v s =
     (if p < length (promises s) \<and> promises s ! p = Pending then
        (case v of
           JProxy k \<Rightarrow>
             (let (th, s1) = proxy_get k ''then'' s in
              case th of
                JProxy c \<Rightarrow> (Some (ThenJob p c), s1\<lparr>promises := (promises s1)[p := Adopted v]\<rparr>)
              | _ \<Rightarrow> (None, s1\<lparr>promises := fulfil p v (promises s1)\<rparr>))
         | _ \<Rightarrow>
             if typeof (get_prop v ''then'') = ''function''
             then (None, s\<lparr>promises := (promises s)[p := Adopted v]\<rparr>)
             else (None, s\<lparr>promises := fulfil p v (promises s)\<rparr>))
      else (None, s))"

text \<open>
  The job, run after the handler that queued it has returned: it calls the child
  proxy with fresh resolving functions of promise \<open>p\<close>. The key chain of the child
  ends in \<open>then\<close> (\<open>createProxy\<close> made it under that name), so the \<open>apply\<close> trap
  takes its first branch: it issues an await request, with a promise \<open>p2\<close>, and
  returns \<open>p2.then(...args)\<close>, which makes \<open>p\<close> follow \<open>p2\<close>.
\<close>

definition run_job :: "job \<Rightarrow> realm \<Rightarrow> realm" where
  "run_job j s =
     (case j of
        ThenJob p c \<Rightarrow>
          if c < length (proxies s) \<and> p_keyChain (proxies s ! c) \<noteq> []
             \<and> last (p_keyChain (proxies s ! c)) = ''then''
          then
            (let (p2, s1) = proxy_apply (p_ep (proxies s ! c)) (p_keyChain (proxies s ! c)) [] s
             in s1\<lparr>promises := (promises s1)[p := Following p2]\<rparr>)
          else s)"

subsection \<open>remoteObject.ts: the handler of wrap\<close>

text \<open>
  The listener \<open>wrap(ep)\<close> subscribes, run on \<open>ev.data\<close>, together with the job it
  may queue. The \<open>try\<close> block throws at the assertion or inside \<open>unwrapArg\<close>; the
  \<open>catch\<close> block logs.
\<close>

definition wrap_listener :: "endpoint \<Rightarrow> jsval \<Rightarrow> realm \<Rightarrow> realm" where
  "wrap_listener ep d s =
     (if truthy d then
        (let (ch, s0) = js_get d ''channel'' s in
         if \<not> truthy ch then
           (case assertValidRPCResponse d of
              Inl e \<Rightarrow> console_error ''Error processing RPC response:'' e s0
            | Inr _ \<Rightarrow>
                (case unwrapArg (get_prop d ''data'') ep s0 of
                   (Inl e, s1) \<Rightarrow> console_error ''Error processing RPC response:'' e s1
                 | (Inr res, s1) \<Rightarrow>
                     (case map_of (promiseMap s1) (get_prop d ''id'') of
                        Some p \<Rightarrow>
                          (let (queued, s2) = resolve_promise p res s1;
                               s3 = s2\<lparr>promiseMap := AList.delete (get_prop d ''id'') (promiseMap s2)\<rparr>
                           in case queued of
                                None \<Rightarrow> s3
                              | Some j \<Rightarrow> run_job j s3)
                      | None \<Rightarrow> s1)))
         else s0)
      else s)"

subsection \<open>remoteObject.ts: getKeyChain and the handler of expose\<close>

text \<open>The loop of \<open>getKeyChain\<close>.\<close>

fun walk_keys :: "jsval \<Rightarrow> string list \<Rightarrow> jsval + jsval" where
  "walk_keys currentObject [] = Inr currentObject"
| "walk_keys currentObject (p # ps) =
     (case assertPropertyExists currentObject p of
        Inl e \<Rightarrow> Inl e
      | Inr _ \<Rightarrow> walk_keys (get_prop currentObject p) ps)"

definition getKeyChain :: "jsval \<Rightarrow> jsval \<Rightarrow> jsval + jsval" where
  "getKeyChain obj keyChain =
     (case assertValidKeyChain keyChain of
        Inl e \<Rightarrow> Inl e
      | Inr ks \<Rightarrow> walk_keys obj ks)"

text \<open>
  The functions of the application are known by what awaiting their call gives:
  a value, a throw (or a rejection), or a promise that never settles. What they do to
  the realm while they run is not modelled. \<open>hcall\<close> is \<open>await fn(...args)\<close>,
  \<open>hconstruct\<close> is \<open>new c(...args)\<close>.
\<close>

datatype outcome =
    Returns jsval
  | Throws jsval
  | NeverSettles

record host =
  hcall :: "jsval \<Rightarrow> jsval list \<Rightarrow> outcome"
  hconstruct :: "jsval \<Rightarrow> jsval list \<Rightarrow> outcome"

definition response_msg :: "jsval \<Rightarrow> jsval \<Rightarrow> jsval" where
  "response_msg rid enc = JObj [(''id'', rid), (''type'', JStr ''response''), (''data'', enc)]"

text \<open>
  The \<open>try\<close> block of the handler of \<open>expose\<close>: \<open>Inl e\<close> when it throws \<open>e\<close>,
  with the state at the throw. The handler is run as one step, the \<open>await\<close> included;
  when the awaited call never settles the handler stops there.
\<close>

definition expose_try :: "host \<Rightarrow> jsval \<Rightarrow> endpoint \<Rightarrow> jsval \<Rightarrow> realm \<Rightarrow> (jsval + unit) \<times> realm" where
  "expose_try h obj ep d s =
     (case assertValidRPCCall d of
        Inl e \<Rightarrow> (Inl e, s)
      | Inr _ \<Rightarrow>
          if get_prop d ''type'' = JStr ''await'' then
            (case getKeyChain obj (get_prop d ''keyChain'') of
               Inl e \<Rightarrow> (Inl e, s)
             | Inr v \<Rightarrow>
                 (let (enc, s1) = wrapArg v ep False s
                  in (Inr (), postMessage ep (response_msg (get_prop d ''id'') enc) s1)))
          else if get_prop d ''type'' = JStr ''call'' then
            (case getKeyChain obj (get_prop d ''keyChain'') of
               Inl e \<Rightarrow> (Inl e, s)
             | Inr fn \<Rightarrow>
                 (case assertIsFunction fn ''call target'' of
                    Inl e \<Rightarrow> (Inl e, s)
                  | Inr _ \<Rightarrow>
                      (case unwrapArgs (array_elems (get_prop d ''args'')) ep s of
                         (Inl e, s1) \<Rightarrow> (Inl e, s1)
                       | (Inr args, s1) \<Rightarrow>
                           (case hcall h fn args of
                              Throws e \<Rightarrow> (Inl e, s1)
                            | NeverSettles \<Rightarrow> (Inr (), s1)
                            | Returns response \<Rightarrow>
                                (let (enc, s2) = wrapArg response ep False s1
                                 in (Inr (), postMessage ep (response_msg (get_prop d ''id'') enc) s2))))))
          else if get_prop d ''type'' = JStr ''construct'' then
            (case getKeyChain obj (get_prop d ''keyChain'') of
               Inl e \<Rightarrow> (Inl e, s)
             | Inr c \<Rightarrow>
                 (case assertIsFunction c ''constructor target'' of
                    Inl e \<Rightarrow> (Inl e, s)
                  | Inr _ \<Rightarrow>
                      (case (if isArray (get_prop d ''args'')
                             then unwrapArgs (array_elems (get_prop d ''args'')) ep s
                             else (Inr [], s)) of
                         (Inl e, s1) \<Rightarrow> (Inl e, s1)
                       | (Inr args, s1) \<Rightarrow>
                           (case hconstruct h c args of
                              Throws e \<Rightarrow> (Inl e, s1)
                            | NeverSettles \<Rightarrow> (Inr (), s1)
                            | Returns i \<Rightarrow>
                                (let (enc, s2) = wrapArg i ep True s1
                                 in (Inr (), postMessage ep (response_msg (get_prop d ''id'') enc) s2))))))
          else (Inr (), s))"

text \<open>
  The \<open>catch\<close> block: log, then post the error message inside a second \<open>try\<close>;
  reading \<open>error.message\<close> of a thrown undefined or null throws there and is logged.
\<close>

definition expose_catch :: "jsval \<Rightarrow> endpoint \<Rightarrow> jsval \<Rightarrow> realm \<Rightarrow> realm" where
  "expose_catch d ep error s =
     (let s1 = console_error ''Error processing RPC call:'' error s;
          (rid, s2) = js_get d ''id'' s1
      in if error = JUndefined \<or> error = JNull
         then console_error ''Failed to send error response:'' (type_error_read error ''message'') s2
         else
           (let (msg, s3) = js_get error ''message'' s2
            in postMessage ep (JObj [(''id'', rid), (''type'', JStr ''error''), (''error'', msg)]) s3))"

definition expose_listener :: "host \<Rightarrow> jsval \<Rightarrow> endpoint \<Rightarrow> jsval \<Rightarrow> realm \<Rightarrow> realm" where
  "expose_listener h obj ep d s =
     (if truthy d then
        (let (ch, s0) = js_get d ''channel'' s in
         if \<not> truthy ch then
           (case expose_try h obj ep d s0 of
              (Inl e, s1) \<Rightarrow> expose_catch d ep e s1
            | (Inr _, s1) \<Rightarrow> s1)
         else s0)
      else s)"

text \<open>The realm when the modules have just been loaded.\<close>

definition init_realm :: "(nat \<Rightarrow> 128 word) \<Rightarrow> realm" where
  "init_realm uuids =
     \<lparr>uniqueInRealmId = 0, randomUUID = uuids, uuid_calls = 0, promiseMap = [], promises = [],
      proxies = [], listeners = [], channels = 0, outbox = [], console = []\<rparr>"

subsection \<open>Requests issued on an endpoint\<close>

text \<open>
  What a client does with a proxy of \<open>wrap(ep)\<close> that posts a request: it calls the
  proxy at a key chain (awaiting the chain is calling it at the chain followed by
  \<open>then\<close>), or it constructs at a key chain. \<open>issue\<close> runs the trap and returns the
  promise of the request.
\<close>

datatype request =
    Call "string list" "jsval list"
  | New "string list" "jsval list"

fun issue :: "endpoint \<Rightarrow> request \<Rightarrow> realm \<Rightarrow> nat \<times> realm" where
  "issue ep (Call keyChain args) s = proxy_apply ep keyChain args s"
| "issue ep (New keyChain args) s = proxy_construct ep keyChain args s"

text \<open>
  The transport under an endpoint, what a message posted on the endpoint looks like
  on that transport, and the way back: the message that a message of the transport
  carries for the endpoint.
\<close>

fun base_of :: "endpoint \<Rightarrow> nat" where
  "base_of (Base b) = b"
| "base_of (Chan parent channelName n) = base_of parent"

fun enchannel :: "endpoint \<Rightarrow> jsval \<Rightarrow> jsval" where
  "enchannel (Base b) v = v"
| "enchannel (Chan parent channelName n) v =
     enchannel parent (JObj [(''channel'', channelName), (''payload'', v)])"

fun unchannel :: "endpoint \<Rightarrow> jsval \<Rightarrow> jsval" where
  "unchannel (Base b) m = m"
| "unchannel (Chan parent channelName n) m = get_prop (unchannel parent m) ''payload''"

text \<open>
  The ids of the messages for endpoint \<open>ep\<close> that were posted between the states
  \<open>s\<close> and \<open>s'\<close>, in order.
\<close>

definition posted_ids :: "endpoint \<Rightarrow> realm \<Rightarrow> realm \<Rightarrow> jsval list" where
  "posted_ids ep s s' =
     map (\<lambda>e. get_prop (unchannel ep (snd e)) ''id'') (drop (length (outbox s)) (outbox s'))"

text \<open>The numbers among a list of ids.\<close>

fun num_ids :: "jsval list \<Rightarrow> int list" where
  "num_ids [] = []"
| "num_ids (JNum a # vs) = a # num_ids vs"
| "num_ids (v # vs) = num_ids vs"

text \<open>
  The message that a message of a transport carries once the envelopes
  \<open>{channel, payload}\<close> of the channels are taken off.
\<close>

function innermost :: "jsval \<Rightarrow> jsval" where
  "innermost m =
     (case m of
        JObj ps \<Rightarrow>
          (case map_of ps ''channel'' of
             Some c \<Rightarrow> (case map_of ps ''payload'' of Some v \<Rightarrow> innermost v | None \<Rightarrow> m)
           | None \<Rightarrow> m)
      | _ \<Rightarrow> m)"
  by pat_completeness auto
termination
proof (relation "measure size")
  show "wf (measure (size :: jsval \<Rightarrow> nat))" by simp
next
  fix m :: jsval and ps c v
  assume "m = JObj ps" and "map_of ps ''payload'' = Some v"
  have "map_of qs k = Some v \<Longrightarrow> size v < Suc (size_list (size_prod (\<lambda>_. 0) size) qs)"
    for qs :: "(string \<times> jsval) list" and k
    by (induction qs) (auto split: if_splits)
  then show "(v, m) \<in> measure size"
    using \<open>m = JObj ps\<close> \<open>map_of ps ''payload'' = Some v\<close> by fastforce
qed

text \<open>A request message: its type is one of the three that the traps post.\<close>

definition is_request :: "jsval \<Rightarrow> bool" where
  "is_request m \<longleftrightarrow>
     get_prop m ''type'' = JStr ''call'' \<or> get_prop m ''type'' = JStr ''await''
     \<or> get_prop m ''type'' = JStr ''construct''"

text \<open>
  The ids of the request messages that were posted between the states \<open>s\<close> and
  \<open>s'\<close>, on any transport and inside any envelopes, in order.
\<close>

definition request_ids :: "realm \<Rightarrow> realm \<Rightarrow> jsval list" where
  "request_ids s s' =
     map (\<lambda>m. get_prop m ''id'')
       (filter is_request (map (\<lambda>e. innermost (snd e)) (drop (length (outbox s)) (outbox s'))))"

text \<open>
  A step of the realm: the client issues a request through a proxy of \<open>wrap(ep)\<close>,
  or a message is delivered to the handler that \<open>wrap(ep)\<close> subscribed (the job it
  queues included), or to the handler that \<open>expose(obj, ep)\<close> subscribed. A run is
  a sequence of steps.
\<close>

datatype step =
    Issue endpoint request
  | ToWrap endpoint jsval
  | ToExpose host jsval endpoint jsval

fun run_step :: "step \<Rightarrow> realm \<Rightarrow> realm" where
  "run_step (Issue ep r) s = snd (issue ep r s)"
| "run_step (ToWrap ep d) s = wrap_listener ep d s"
| "run_step (ToExpose h obj ep d) s = expose_listener h obj ep d s"

fun run_steps :: "step list \<Rightarrow> realm \<Rightarrow> realm" where
  "run_steps [] s = s"
| "run_steps (x # xs) s = run_steps xs (run_step x s)"

text \<open>
  Two sources of identifiers: one that draws the same identifier every time, one that
  draws the identifiers 0, 1, 2 and so on.
\<close>

definition same_uuid :: "nat \<Rightarrow> 128 word" where
  "same_uuid k = 0"

definition counting_uuid :: "nat \<Rightarrow> 128 word" where
  "counting_uuid k = of_nat k"

subsection \<open>Values used in the statements\<close>

text \<open>A channel name as the signature of \<open>createChannel\<close> has it: a string or a number.\<close>

fun is_tag :: "jsval \<Rightarrow> bool" where
  "is_tag (JNum n) = True"
| "is_tag (JStr x) = True"
| "is_tag v = False"

text \<open>A host whose functions return at once.\<close>

definition idle_host :: host where
  "idle_host = \<lparr>hcall = (\<lambda>f args. Returns JUndefined), hconstruct = (\<lambda>f args. Returns (JObj []))\<rparr>"

definition unsafe_names_error :: jsval where
  "unsafe_names_error = JError ''Invalid keyChain: contains unsafe property names''"

text \<open>Messages: the unsafe call of the specification, and the same chain with no type.\<close>

definition proto_call :: jsval where
  "proto_call = JObj [(''id'', JNum 9), (''type'', JStr ''call''),
                      (''keyChain'', JArr [JStr ''__proto__'', JStr ''constructor'']), (''args'', JArr [])]"

definition proto_untyped :: jsval where
  "proto_untyped = JObj [(''id'', JNum 9), (''keyChain'', JArr [JStr ''__proto__''])]"

text \<open>Messages that carry a \<open>channel\<close> field whose value is 0.\<close>

definition zero_tagged_await :: jsval where
  "zero_tagged_await =
     JObj [(''channel'', JNum 0), (''id'', JNum 9), (''type'', JStr ''await''), (''keyChain'', JArr [])]"

definition zero_tagged_response :: jsval where
  "zero_tagged_response =
     JObj [(''channel'', JNum 0), (''id'', JNum 1), (''type'', JStr ''response''),
           (''data'', JObj [(''type'', JStr ''any''), (''data'', JNum 5)])]"

text \<open>A request whose type is the empty string.\<close>

definition empty_type_call :: jsval where
  "empty_type_call = JObj [(''id'', JNum 9), (''type'', JStr []), (''keyChain'', JArr [])]"

text \<open>A channel with tag 1 on transport 0, one application callback subscribed to it.\<close>

definition demo_channel :: endpoint where
  "demo_channel = fst (createChannel (Base 0) (JNum 1) (init_realm same_uuid))"

definition demo_realm :: realm where
  "demo_realm =
     addEventListener demo_channel ''message'' (LUser 0)
       (snd (createChannel (Base 0) (JNum 1) (init_realm same_uuid)))"

definition demo_msg :: jsval where
  "demo_msg = JObj [(''channel'', JNum 1), (''payload'', JStr ''hi'')]"




text \<open>
  The rejection scenario of the specification: \<open>R = { boom() { throw new Error("bad") } }\<close>
  is exposed on transport 1, the client runs \<open>wrap(E).boom()\<close> on transport 0.
\<close>

definition boom_root :: jsval where
  "boom_root = JObj [(''boom'', JFun 0)]"

definition boom_host :: host where
  "boom_host = \<lparr>hcall = (\<lambda>f args. Throws (JError ''bad'')),
                 hconstruct = (\<lambda>c args. Throws (JError ''bad''))\<rparr>"

definition boom_call :: jsval where
  "boom_call = JObj [(''id'', JNum 1), (''type'', JStr ''call''),
                     (''keyChain'', JArr [JStr ''boom'']), (''args'', JArr [])]"

definition boom_reply :: jsval where
  "boom_reply = JObj [(''id'', JNum 1), (''type'', JStr ''error''), (''error'', JStr ''bad'')]"

definition boom_client :: realm where
  "boom_client = snd (js_get (JProxy 0) ''boom'' (snd (wrap (Base 0) (init_realm same_uuid))))"

definition boom_pending :: realm where
  "boom_pending = snd (proxy_apply (Base 0) [''boom''] [] boom_client)"

text \<open>
  The constructor scenario of the specification:
  \<open>R = { Counter: class { constructor(n) { this.n = n } inc() { return ++this.n } } }\<close>.
  An instance owns \<open>n\<close>; \<open>inc\<close> is a property of the prototype.
\<close>

definition counter_root :: jsval where
  "counter_root = JObj [(''Counter'', JFun 0)]"

definition counter_host :: host where
  "counter_host = \<lparr>hcall = (\<lambda>f args. Returns JUndefined),
                    hconstruct = (\<lambda>c args. Returns (JObj [(''n'', case args of [] \<Rightarrow> JUndefined | a # as \<Rightarrow> a)]))\<rparr>"

definition counter_new :: jsval where
  "counter_new = JObj [(''id'', JNum 1), (''type'', JStr ''construct''),
                       (''keyChain'', JArr [JStr ''Counter'']),
                       (''args'', JArr [JObj [(''type'', JStr ''any''), (''data'', JNum 10)]])]"

text \<open>A message for channel 1 that has no payload.\<close>

definition payloadless_msg :: jsval where
  "payloadless_msg = JObj [(''channel'', JNum 1)]"

text \<open>A state that the allocator may reach from another one.\<close>

definition later :: "realm \<Rightarrow> realm \<Rightarrow> bool" where
  "later s s' \<longleftrightarrow>
     randomUUID s' = randomUUID s \<and> uniqueInRealmId s \<le> uniqueInRealmId s'
     \<and> uuid_calls s \<le> uuid_calls s'"

text \<open>A step that neither draws an id nor posts a message.\<close>

definition quiet :: "realm \<Rightarrow> realm \<Rightarrow> bool" where
  "quiet s t \<longleftrightarrow>
     randomUUID t = randomUUID s \<and> uniqueInRealmId t = uniqueInRealmId s
     \<and> uuid_calls t = uuid_calls s \<and> outbox t = outbox s"

text \<open>A step that may draw ids and posts no request message.\<close>

definition replies :: "realm \<Rightarrow> realm \<Rightarrow> bool" where
  "replies s t \<longleftrightarrow>
     later s t
     \<and> (\<exists>ms. outbox t = outbox s @ ms \<and> (\<forall>e \<in> set ms. \<not> is_request (innermost (snd e))))"


text \<open>
  What \<open>unwrapArg\<close> returns for \<open>{type: "any", data: v}\<close> fulfils a promise at
  once when \<open>v\<close> is no proxy of the realm and has no callable \<open>then\<close>.
\<close>

fun plain_value :: "jsval \<Rightarrow> bool" where
  "plain_value (JProxy k) = False"
| "plain_value v = (typeof (get_prop v ''then'') \<noteq> ''function'')"





text \<open>
  A realm whose counter stands at the last value below the threshold, with an
  identifier source that counts its calls; three requests; and a run: a call, the
  response to it with a wrapped payload, a construct request served by the dispatcher
  of the same realm, another request.
\<close>

definition late_realm :: realm where
  "late_realm = (init_realm counting_uuid)\<lparr>uniqueInRealmId := MAX_SAFE_INTEGER - 1000\<rparr>"

definition three_requests :: "request list" where
  "three_requests = [Call [] [], Call [''f''] [JNum 1], New [] []]"

definition late_wraped :: jsval where
  "late_wraped = JObj [(''id'', JNum (MAX_SAFE_INTEGER - 999)), (''type'', JStr ''response''),
                       (''data'', JObj [(''type'', JStr ''wraped''), (''id'', JNum 7)])]"

definition late_steps :: "step list" where
  "late_steps = [Issue (Base 0) (Call [''f''] [JNum 1]), ToWrap (Base 0) late_wraped,
                 ToExpose counter_host counter_root (Base 0) counter_new,
                 Issue (Base 0) (New [] [])]"

section \<open>Properties\<close>

subsection \<open>The inline path of the codec\<close>

lemma markedObj_has_False [simp]: "markedObj_has v = False"
  by (simp add: markedObj_has_def markedObj_def)

lemma js_get_object [simp]: "typeof d = ''object'' \<Longrightarrow> js_get d p s = (get_prop d p, s)"
  by (cases d) simp_all

text \<open>
  C8. For every value \<open>v\<close> that is not a function and has no function among its own
  enumerable values, \<open>wrapArg\<close> returns \<open>{type: "any", data: v}\<close> and changes
  nothing, and \<open>unwrapArg\<close> of that returns \<open>v\<close>, on any endpoint and in any state.
\<close>

theorem inline_roundtrip:
  assumes "typeof v \<noteq> ''function''"
    and "\<forall>vs. object_values v = Some vs \<longrightarrow> \<not> list_ex (\<lambda>x. typeof x = ''function'') vs"
  shows "wrapArg v ep False s = (JObj [(''type'', JStr ''any''), (''data'', v)], s)
         \<and> unwrapArg (fst (wrapArg v ep False s)) ep' s' = (Inr v, s')"
proof -
  have enc: "wrapArg v ep False s = (JObj [(''type'', JStr ''any''), (''data'', v)], s)"
    using assms by (cases "object_values v") (simp_all add: wrapArg_def)
  show ?thesis
    by (simp add: enc unwrapArg_def)
qed

theorem inline_roundtrip_witness:
  "typeof (JObj [(''a'', JNum 1)]) \<noteq> ''function''
   \<and> object_values (JObj [(''a'', JNum 1)]) = Some [JNum 1]
   \<and> wrapArg (JObj [(''a'', JNum 1)]) (Base 0) False (init_realm same_uuid)
        = (JObj [(''type'', JStr ''any''), (''data'', JObj [(''a'', JNum 1)])], init_realm same_uuid)
   \<and> unwrapArg (fst (wrapArg (JObj [(''a'', JNum 1)]) (Base 0) False (init_realm same_uuid)))
        (Base 1) (init_realm same_uuid)
        = (Inr (JObj [(''a'', JNum 1)]), init_realm same_uuid)"
proof -
  have a: "typeof (JObj [(''a'', JNum 1)]) \<noteq> ''function''" by simp
  have b: "\<forall>vs. object_values (JObj [(''a'', JNum 1)]) = Some vs
              \<longrightarrow> \<not> list_ex (\<lambda>x. typeof x = ''function'') vs"
    by simp
  show ?thesis
    using inline_roundtrip [OF a b, of "Base 0" "init_realm same_uuid" "Base 1" "init_realm same_uuid"]
    by auto
qed

subsection \<open>The dispatcher and unsafe key chains\<close>

lemma keyChain_array_object:
  "get_prop d ''keyChain'' = JArr ks \<Longrightarrow> typeof d = ''object'' \<and> truthy d"
  by (cases d) (simp_all add: array_index_def is_digit_def)

lemma unsafe_chain_throws:
  assumes "get_prop d ''keyChain'' = JArr ks" and "list_ex unsafe_key ks"
    and "\<not> truthy (get_prop d ''channel'')"
  shows "expose_listener h obj ep d s =
           expose_catch d ep
             (if get_prop d ''id'' = JUndefined \<or> \<not> truthy (get_prop d ''type'')
              then JError ''Invalid RPC call: missing id or type''
              else unsafe_names_error) s"
  using assms keyChain_array_object [OF assms(1)]
  by (simp add: expose_listener_def expose_try_def assertValidRPCCall_def
      assertValidKeyChain_def unsafe_names_error_def)

text \<open>
  C4, as amended. Let the \<open>keyChain\<close> of an inbound message be an array with an
  element that is not a string or that contains \<open>__proto__\<close>, \<open>prototype\<close> or
  \<open>constructor\<close>. Then the handler of \<open>expose\<close> does the same whatever the exposed
  root and the functions of the host are (it reads nothing of the root), and
  \<open>getKeyChain\<close> itself refuses the chain before its loop. When the message is bare
  (its \<open>channel\<close> is absent or falsy) and has a defined \<open>id\<close> and a truthy
  \<open>type\<close>, the handler logs and posts \<open>{id, type: "error", error}\<close> with the text
  \<open>Invalid keyChain: contains unsafe property names\<close>.
\<close>

theorem unsafe_chain_rejected:
  assumes "get_prop d ''keyChain'' = JArr ks" and "list_ex unsafe_key ks"
  shows "expose_listener h obj ep d s = expose_listener h' obj' ep d s
    \<and> getKeyChain obj (get_prop d ''keyChain'') = Inl unsafe_names_error
    \<and> (\<not> truthy (get_prop d ''channel'') \<and> get_prop d ''id'' \<noteq> JUndefined
         \<and> truthy (get_prop d ''type'') \<longrightarrow>
        expose_listener h obj ep d s =
          postMessage ep
            (JObj [(''id'', get_prop d ''id''), (''type'', JStr ''error''),
                   (''error'', JStr ''Invalid keyChain: contains unsafe property names'')])
            (console_error ''Error processing RPC call:'' unsafe_names_error s))"
proof -
  have obj: "typeof d = ''object''" "truthy d"
    using keyChain_array_object [OF assms(1)] by simp_all
  have indep: "expose_listener h obj ep d s = expose_listener h' obj' ep d s"
  proof (cases "truthy (get_prop d ''channel'')")
    case True
    then show ?thesis using obj by (simp add: expose_listener_def)
  next
    case False
    show ?thesis
      by (simp only: unsafe_chain_throws [OF assms False])
  qed
  have walk: "getKeyChain obj (get_prop d ''keyChain'') = Inl unsafe_names_error"
    using assms by (simp add: getKeyChain_def assertValidKeyChain_def unsafe_names_error_def)
  have reply: "expose_listener h obj ep d s =
          postMessage ep
            (JObj [(''id'', get_prop d ''id''), (''type'', JStr ''error''),
                   (''error'', JStr ''Invalid keyChain: contains unsafe property names'')])
            (console_error ''Error processing RPC call:'' unsafe_names_error s)"
    if "\<not> truthy (get_prop d ''channel'')" "get_prop d ''id'' \<noteq> JUndefined"
       "truthy (get_prop d ''type'')"
    using that obj
    by (simp add: unsafe_chain_throws [OF assms that(1)] expose_catch_def unsafe_names_error_def)
  show ?thesis using indep walk reply by blast
qed

theorem unsafe_chain_rejected_witness:
  "list_ex unsafe_key [JStr ''__proto__'', JStr ''constructor'']
   \<and> outbox (expose_listener idle_host (JObj [(''a'', JNum 1)]) (Base 0) proto_call (init_realm same_uuid))
       = [(0, JObj [(''id'', JNum 9), (''type'', JStr ''error''),
                    (''error'', JStr ''Invalid keyChain: contains unsafe property names'')])]"
proof -
  have k: "get_prop proto_call ''keyChain'' = JArr [JStr ''__proto__'', JStr ''constructor'']"
    by (simp add: proto_call_def)
  have u: "list_ex unsafe_key [JStr ''__proto__'', JStr ''constructor'']"
    by (simp add: unsafe_key_def)
  show ?thesis
    using unsafe_chain_rejected [OF k u, of idle_host "JObj [(''a'', JNum 1)]" "Base 0"
        "init_realm same_uuid" idle_host "JObj [(''a'', JNum 1)]"] u
    by (simp add: proto_call_def console_error_def init_realm_def)
qed

text \<open>
  The claim as stated fails on a message that has the unsafe chain and no \<open>type\<close>:
  the reply is the error of the check that comes first, and it does not mention unsafe
  property names.
\<close>

theorem unsafe_chain_other_error:
  "list_ex unsafe_key [JStr ''__proto__'']
   \<and> outbox (expose_listener idle_host (JObj [(''a'', JNum 1)]) (Base 0) proto_untyped (init_realm same_uuid))
       = [(0, JObj [(''id'', JNum 9), (''type'', JStr ''error''),
                    (''error'', JStr ''Invalid RPC call: missing id or type'')])]
   \<and> \<not> str_includes ''Invalid RPC call: missing id or type'' ''unsafe property names''"
  by (simp add: unsafe_key_def expose_listener_def proto_untyped_def init_realm_def expose_try_def
      assertValidRPCCall_def expose_catch_def console_error_def)

subsection \<open>Messages that the handlers ignore\<close>

text \<open>
  C7, as amended. A message that is an object whose \<open>channel\<close> field is truthy is
  ignored by the handler of \<open>expose\<close> and by the handler of \<open>wrap\<close>: the state of
  the realm is unchanged (nothing validated, walked, posted, logged or settled).
\<close>

theorem tagged_ignored:
  assumes "typeof d = ''object''" and "truthy (get_prop d ''channel'')"
  shows "expose_listener h obj ep d s = s \<and> wrap_listener ep d s = s"
  using assms by (simp add: expose_listener_def wrap_listener_def)

theorem tagged_ignored_witness:
  "typeof demo_msg = ''object'' \<and> truthy (get_prop demo_msg ''channel'')
   \<and> expose_listener idle_host (JNum 7) (Base 0) demo_msg demo_realm = demo_realm
   \<and> wrap_listener (Base 0) demo_msg demo_realm = demo_realm"
proof -
  have a: "typeof demo_msg = ''object''" and b: "truthy (get_prop demo_msg ''channel'')"
    by (simp_all add: demo_msg_def)
  show ?thesis
    using tagged_ignored [OF a b, of idle_host "JNum 7" "Base 0" demo_realm] a b by simp
qed

text \<open>
  The claim as stated fails when the value of the \<open>channel\<close> field is falsy (here 0):
  the dispatcher answers the request, and the client handler resolves the pending
  promise.
\<close>

theorem falsy_tag_not_ignored:
  "outbox (expose_listener idle_host (JNum 7) (Base 0) zero_tagged_await (init_realm same_uuid))
     = [(0, JObj [(''id'', JNum 9), (''type'', JStr ''response''),
                  (''data'', JObj [(''type'', JStr ''any''), (''data'', JNum 7)])])]
   \<and> promises (wrap_listener (Base 0) zero_tagged_response
        (snd (proxy_apply (Base 0) [''f''] [] (init_realm same_uuid))))
     = [ResolvedWith (JNum 5)]"
  by (simp add: expose_listener_def zero_tagged_await_def zero_tagged_response_def init_realm_def
      expose_try_def assertValidRPCCall_def assertValidKeyChain_def getKeyChain_def
      wrapArg_def response_msg_def wrap_listener_def assertValidRPCResponse_def unwrapArg_def
      proxy_apply_def getId_def createPromise_def MAX_SAFE_INTEGER_def resolve_promise_def
      fulfil_def follows.simps)

subsection \<open>Requests of a type the dispatcher does not know\<close>

text \<open>
  C10, as amended. When the handler of \<open>expose\<close> receives a bare message (a non-null
  object whose \<open>channel\<close> is absent or falsy) with a defined \<open>id\<close>, a key chain
  that passes \<open>assertValidKeyChain\<close>, and a \<open>type\<close> that is a non-empty string
  other than \<open>await\<close>, \<open>call\<close> and \<open>construct\<close>, it posts nothing and logs
  nothing: the state of the realm is unchanged.
\<close>

theorem unknown_type_silent:
  assumes "typeof d = ''object''" and "d \<noteq> JNull"
    and "\<not> truthy (get_prop d ''channel'')"
    and "get_prop d ''id'' \<noteq> JUndefined"
    and "assertValidKeyChain (get_prop d ''keyChain'') = Inr ks"
    and "get_prop d ''type'' = JStr ty" and "ty \<noteq> []"
    and "ty \<noteq> ''await''" and "ty \<noteq> ''call''" and "ty \<noteq> ''construct''"
  shows "expose_listener h obj ep d s = s"
proof -
  have "truthy d" using assms(1,2) by (cases d) auto
  then show ?thesis
    using assms by (simp add: expose_listener_def expose_try_def assertValidRPCCall_def)
qed

theorem unknown_type_silent_witness:
  "expose_listener idle_host (JNum 7) (Base 0)
     (JObj [(''id'', JNum 9), (''type'', JStr ''release''), (''keyChain'', JArr [JStr ''a''])])
     (init_realm same_uuid) = init_realm same_uuid"
proof -
  have k: "assertValidKeyChain (JArr [JStr ''a'']) = Inr [''a'']"
    by (simp add: assertValidKeyChain_def unsafe_key_def)
  show ?thesis
    by (rule unknown_type_silent [where ty = "''release''" and ks = "[''a'']"]) (simp_all add: k)
qed

text \<open>
  The claim as stated fails when the type is the empty string: the first check of
  \<open>assertValidRPCCall\<close> throws and the dispatcher posts an error message.
\<close>

theorem empty_type_answered:
  "outbox (expose_listener idle_host (JNum 7) (Base 0) empty_type_call (init_realm same_uuid))
     = [(0, JObj [(''id'', JNum 9), (''type'', JStr ''error''),
                  (''error'', JStr ''Invalid RPC call: missing id or type'')])]"
  by (simp add: expose_listener_def empty_type_call_def init_realm_def expose_try_def
      assertValidRPCCall_def expose_catch_def console_error_def)

subsection \<open>The sub-channel multiplexer\<close>

text \<open>
  C6, as amended. Let \<open>c\<close> be the endpoint returned by \<open>createChannel(E, t)\<close>, \<open>t\<close> a
  string or a number. Posting \<open>v\<close> on \<open>c\<close> posts exactly
  \<open>{channel: t, payload: v}\<close> on \<open>E\<close>. On an incoming message \<open>m\<close> of \<open>E\<close>, the
  channel calls a listener \<open>l\<close> with data \<open>x\<close> if and only if \<open>l\<close> is one of its
  listeners, \<open>m\<close> is a non-null object, \<open>m.channel\<close> is \<open>t\<close>, and \<open>x\<close> is
  \<open>m.payload\<close>, or null when \<open>m.payload\<close> is undefined or absent. Such a message
  reaches no listener of a channel made with another tag \<open>u\<close>.
\<close>

theorem channel_multiplex:
  assumes "is_tag t" and "is_tag u" and "u \<noteq> t"
  shows "fst (createChannel E t s0) = Chan E t (channels s0)
    \<and> (E, LChannel (Chan E t (channels s0))) \<in> set (listeners (snd (createChannel E t s0)))
    \<and> postMessage (fst (createChannel E t s0)) v s
         = postMessage E (JObj [(''channel'', t), (''payload'', v)]) s
    \<and> ((l, x) \<in> set (channelListener (fst (createChannel E t s0)) m s) \<longleftrightarrow>
          l \<in> set (channelListeners (fst (createChannel E t s0)) s)
          \<and> typeof m = ''object'' \<and> m \<noteq> JNull \<and> get_prop m ''channel'' = t
          \<and> x = (if get_prop m ''payload'' = JUndefined then JNull else get_prop m ''payload''))
    \<and> (typeof m = ''object'' \<and> m \<noteq> JNull \<and> get_prop m ''channel'' = t \<longrightarrow>
          channelListener (fst (createChannel E u s1)) m s = [])"
proof -
  have eq: "\<And>a. strict_eq a t \<longleftrightarrow> a = t"
    using assms(1) by (cases t; case_tac a) auto
  have equ: "\<And>a. strict_eq a u \<longleftrightarrow> a = u"
    using assms(2) by (cases u; case_tac a) auto
  have tr: "truthy m \<and> typeof m = ''object'' \<longleftrightarrow> typeof m = ''object'' \<and> m \<noteq> JNull"
    by (cases m) auto
  show ?thesis
    using assms(3) tr
    by (auto simp: createChannel_def addEventListener_def Let_def eq equ message_event_data_def)
qed

theorem channel_multiplex_witness:
  "is_tag (JNum 1) \<and> is_tag (JNum 2) \<and> JNum 2 \<noteq> JNum 1
   \<and> channelListener demo_channel demo_msg demo_realm = [(LUser 0, JStr ''hi'')]
   \<and> channelListener (fst (createChannel (Base 0) (JNum 2) demo_realm)) demo_msg demo_realm = []
   \<and> outbox (postMessage demo_channel (JStr ''yo'') demo_realm)
       = [(0, JObj [(''channel'', JNum 1), (''payload'', JStr ''yo'')])]"
proof -
  have a: "is_tag (JNum 1)" and b: "is_tag (JNum 2)" and c: "JNum 2 \<noteq> JNum 1"
    by simp_all
  show ?thesis
    using channel_multiplex [OF a b c, of "Base 0" "init_realm same_uuid" "JStr ''yo''" demo_realm
        "LUser 0" "JStr ''hi''" demo_msg demo_realm]
    by (simp add: demo_channel_def demo_realm_def demo_msg_def createChannel_def
        addEventListener_def channelListeners_def init_realm_def Let_def message_event_data_def)
qed

text \<open>
  The claim as stated fails on a message of the channel that has no payload: the
  listener is called with null, while \<open>m.payload\<close> is undefined.
\<close>

theorem payloadless_surfaces_null:
  "typeof payloadless_msg = ''object'' \<and> payloadless_msg \<noteq> JNull
   \<and> get_prop payloadless_msg ''channel'' = JNum 1
   \<and> get_prop payloadless_msg ''payload'' = JUndefined
   \<and> channelListeners demo_channel demo_realm = [LUser 0]
   \<and> channelListener demo_channel payloadless_msg demo_realm = [(LUser 0, JNull)]"
  by (simp add: payloadless_msg_def demo_channel_def demo_realm_def createChannel_def
      addEventListener_def channelListeners_def init_realm_def Let_def message_event_data_def)


subsection \<open>The text of an identifier\<close>

lemma hex_digit_inj: "a < 16 \<Longrightarrow> b < 16 \<Longrightarrow> hex_digit a = hex_digit b \<Longrightarrow> a = b"
proof -
  assume a: "a < 16" and b: "b < 16" and e: "hex_digit a = hex_digit b"
  have "of_char (hex_digit a) = (of_char (hex_digit b) :: nat)" using e by simp
  then show ?thesis using a b by (simp add: hex_digit_def split: if_splits)
qed

lemma length_hex_of: "length (hex_of k n) = k"
  by (induction k arbitrary: n) auto

lemma hex_of_inj: "hex_of k n = hex_of k m \<Longrightarrow> n mod 16 ^ k = m mod 16 ^ k"
proof (induction k arbitrary: n m)
  case 0
  then show ?case by simp
next
  case (Suc k)
  then have h: "hex_of k (n div 16) = hex_of k (m div 16)"
    and d: "hex_digit (n mod 16) = hex_digit (m mod 16)"
    by (simp_all add: length_hex_of)
  have lo: "n mod 16 = m mod 16" using d by (intro hex_digit_inj) simp_all
  have hi: "(n div 16) mod 16 ^ k = (m div 16) mod 16 ^ k" using Suc.IH [OF h] .
  have "n mod 16 ^ Suc k = 16 * ((n div 16) mod 16 ^ k) + n mod 16"
    by (simp add: mod_mult2_eq)
  moreover have "m mod 16 ^ Suc k = 16 * ((m div 16) mod 16 ^ k) + m mod 16"
    by (simp add: mod_mult2_eq)
  ultimately show ?case using lo hi by simp
qed

lemma dashed_pieces:
  "take 8 xs @ take 4 (drop 8 xs) @ take 4 (drop 12 xs) @ take 4 (drop 16 xs) @ drop 20 xs = xs"
proof -
  have a: "take 4 (drop 16 xs) @ drop 20 xs = drop 16 xs"
    using append_take_drop_id [of 4 "drop 16 xs"] by simp
  have b: "take 4 (drop 12 xs) @ drop 16 xs = drop 12 xs"
    using append_take_drop_id [of 4 "drop 12 xs"] by simp
  have c: "take 4 (drop 8 xs) @ drop 12 xs = drop 8 xs"
    using append_take_drop_id [of 4 "drop 8 xs"] by simp
  show ?thesis by (simp add: a b c)
qed

lemma dashed_inj:
  assumes "length a = 32" and "length b = 32" and "dashed a = dashed b"
  shows "a = b"
proof -
  have p: "take 8 a = take 8 b \<and> take 4 (drop 8 a) = take 4 (drop 8 b)
      \<and> take 4 (drop 12 a) = take 4 (drop 12 b) \<and> take 4 (drop 16 a) = take 4 (drop 16 b)
      \<and> drop 20 a = drop 20 b"
    using assms by (simp add: dashed_def)
  have "a = take 8 a @ take 4 (drop 8 a) @ take 4 (drop 12 a) @ take 4 (drop 16 a) @ drop 20 a"
    by (simp only: dashed_pieces)
  also have "\<dots> = take 8 b @ take 4 (drop 8 b) @ take 4 (drop 12 b) @ take 4 (drop 16 b) @ drop 20 b"
    using p by (simp only:)
  also have "\<dots> = b" by (simp only: dashed_pieces)
  finally show ?thesis .
qed

text \<open>Different identifiers have different texts.\<close>

lemma uuid_text_inj: "uuid_text v = uuid_text w \<Longrightarrow> v = w"
proof -
  assume e: "uuid_text v = uuid_text w"
  have "hex_of 32 (unat v) = hex_of 32 (unat w)"
    using e unfolding uuid_text_def by (rule dashed_inj [OF length_hex_of length_hex_of])
  then have m: "unat v mod 16 ^ 32 = unat w mod 16 ^ 32" by (rule hex_of_inj)
  have "unat v < 2 ^ 128" and "unat w < 2 ^ 128"
    using unsigned_less [of v] unsigned_less [of w] by simp_all
  then have "unat v mod 16 ^ 32 = unat v" and "unat w mod 16 ^ 32 = unat w"
    by simp_all
  with m have "unat v = unat w" by simp
  then show ?thesis by (simp add: word_unat_eq_iff)
qed

subsection \<open>The id allocator and the ids of the requests\<close>

lemma later_refl [simp]: "later s s"
  by (simp add: later_def)

lemma later_trans: "later s t \<Longrightarrow> later t u \<Longrightarrow> later s u"
  by (auto simp: later_def)

lemma getId_later: "later s (snd (getId s))"
  by (simp add: later_def getId_def)

lemma getId_keeps [simp]:
  "promises (snd (getId s)) = promises s" "promiseMap (snd (getId s)) = promiseMap s"
  "outbox (snd (getId s)) = outbox s"
  by (simp_all add: getId_def)

lemma createChannel_later: "later s (snd (createChannel ep t s))"
  by (simp add: later_def createChannel_def addEventListener_def Let_def)

lemma postMessage_enchannel:
  "postMessage ep v s = s\<lparr>outbox := outbox s @ [(base_of ep, enchannel ep v)]\<rparr>"
  by (induction ep arbitrary: v) simp_all

lemma unchannel_enchannel [simp]: "unchannel ep (enchannel ep v) = v"
  by (induction ep arbitrary: v) simp_all

lemma wrapArg_later: "later s (snd (wrapArg a ep w s))"
  by (simp add: wrapArg_def Let_def case_prod_unfold expose_def addEventListener_def
      createChannel_def getId_def later_def)

lemma wrapArg_keeps:
  "outbox (snd (wrapArg a ep w s)) = outbox s
   \<and> promiseMap (snd (wrapArg a ep w s)) = promiseMap s
   \<and> promises (snd (wrapArg a ep w s)) = promises s"
  by (simp add: wrapArg_def Let_def case_prod_unfold expose_def addEventListener_def
      createChannel_def getId_def)

lemma wrapArgs_later: "later s (snd (wrapArgs args ep s))"
proof (induction args arbitrary: s)
  case Nil
  then show ?case by simp
next
  case (Cons a args)
  show ?case
    using later_trans [OF wrapArg_later [of s a ep False] Cons.IH [of "snd (wrapArg a ep False s)"]]
    by (simp add: case_prod_unfold Let_def)
qed

lemma wrapArgs_keeps:
  "outbox (snd (wrapArgs args ep s)) = outbox s
   \<and> promiseMap (snd (wrapArgs args ep s)) = promiseMap s
   \<and> promises (snd (wrapArgs args ep s)) = promises s"
proof (induction args arbitrary: s)
  case Nil
  then show ?case by simp
next
  case (Cons a args)
  show ?case
    using Cons.IH [of "snd (wrapArg a ep False s)"] wrapArg_keeps [of a ep False s]
    by (simp add: case_prod_unfold Let_def)
qed

text \<open>
  What issuing a request does: it takes the next id of the allocator, registers a new
  pending promise under it, and posts one message, which carries that id.
\<close>

lemma issue_effect:
  "fst (issue ep r s) = length (promises s)
   \<and> promises (snd (issue ep r s)) = promises s @ [Pending]
   \<and> promiseMap (snd (issue ep r s))
        = AList.update (fst (getId s)) (length (promises s)) (promiseMap s)
   \<and> (\<exists>m. outbox (snd (issue ep r s)) = outbox s @ [(base_of ep, enchannel ep m)]
          \<and> get_prop m ''id'' = fst (getId s))
   \<and> later (snd (getId s)) (snd (issue ep r s))"
proof (cases r)
  case (Call keyChain args)
  let ?s2 = "snd (createPromise (fst (getId s)) (snd (getId s)))"
  have l: "later (snd (getId s)) ?s2"
    by (simp add: later_def createPromise_def Let_def)
  show ?thesis
  proof (cases "keyChain \<noteq> [] \<and> last keyChain = ''then''")
    case True
    then show ?thesis
      using Call l
      by (auto simp: proxy_apply_def case_prod_unfold Let_def postMessage_enchannel
          createPromise_def later_def)
  next
    case False
    then show ?thesis
      using Call wrapArgs_keeps [of args ep ?s2] wrapArgs_later [of ?s2 args ep] l
      by (auto simp: proxy_apply_def case_prod_unfold Let_def postMessage_enchannel
          createPromise_def later_def)
  qed
next
  case (New keyChain args)
  let ?s2 = "snd (createPromise (fst (getId s)) (snd (getId s)))"
  have l: "later (snd (getId s)) ?s2"
    by (simp add: later_def createPromise_def Let_def)
  show ?thesis
    using New wrapArgs_keeps [of args ep ?s2] wrapArgs_later [of ?s2 args ep] l
    by (auto simp: proxy_construct_def case_prod_unfold Let_def postMessage_enchannel
        createPromise_def later_def)
qed

lemma issue_later: "later s (snd (issue ep r s))"
  using issue_effect [of ep r s] getId_later [of s] by (blast intro: later_trans)

lemma issue_posted: "posted_ids ep s (snd (issue ep r s)) = [fst (getId s)]"
  using issue_effect [of ep r s] by (auto simp: posted_ids_def)

subsection \<open>What the handler of wrap does to the pending requests\<close>

declare follows.simps [simp del]



lemma length_fulfil [simp]: "length (fulfil p v ps) = length ps"
  by (simp add: fulfil_def)

lemma fulfil_nth:
  "q < length ps \<Longrightarrow> fulfil p v ps ! q = (if follows ps q p then ResolvedWith v else ps ! q)"
  by (simp add: fulfil_def)

text \<open>Reading the data of a message leaves the promises, the table, the allocator alone.\<close>

lemma proxy_get_keeps:
  "promiseMap (snd (proxy_get k p s)) = promiseMap s \<and> promises (snd (proxy_get k p s)) = promises s
   \<and> uniqueInRealmId (snd (proxy_get k p s)) = uniqueInRealmId s
   \<and> uuid_calls (snd (proxy_get k p s)) = uuid_calls s
   \<and> randomUUID (snd (proxy_get k p s)) = randomUUID s
   \<and> outbox (snd (proxy_get k p s)) = outbox s"
  by (simp add: proxy_get_def createProxy_def Let_def split: option.splits)

lemma proxy_get_result:
  "fst (proxy_get k p s) = JUndefined \<or> (\<exists>c. fst (proxy_get k p s) = JProxy c)"
  by (simp add: proxy_get_def createProxy_def Let_def split: option.splits)

lemma js_get_keeps:
  "promiseMap (snd (js_get v p s)) = promiseMap s \<and> promises (snd (js_get v p s)) = promises s
   \<and> uniqueInRealmId (snd (js_get v p s)) = uniqueInRealmId s
   \<and> uuid_calls (snd (js_get v p s)) = uuid_calls s
   \<and> randomUUID (snd (js_get v p s)) = randomUUID s
   \<and> outbox (snd (js_get v p s)) = outbox s"
  by (cases v) (simp_all add: proxy_get_keeps)

lemma createChannel_keeps:
  "promiseMap (snd (createChannel ep t s)) = promiseMap s
   \<and> promises (snd (createChannel ep t s)) = promises s
   \<and> uniqueInRealmId (snd (createChannel ep t s)) = uniqueInRealmId s
   \<and> uuid_calls (snd (createChannel ep t s)) = uuid_calls s
   \<and> randomUUID (snd (createChannel ep t s)) = randomUUID s
   \<and> outbox (snd (createChannel ep t s)) = outbox s"
  by (simp add: createChannel_def addEventListener_def Let_def)

lemma wrap_keeps:
  "promiseMap (snd (wrap ep s)) = promiseMap s \<and> promises (snd (wrap ep s)) = promises s
   \<and> uniqueInRealmId (snd (wrap ep s)) = uniqueInRealmId s
   \<and> uuid_calls (snd (wrap ep s)) = uuid_calls s
   \<and> randomUUID (snd (wrap ep s)) = randomUUID s
   \<and> outbox (snd (wrap ep s)) = outbox s"
  by (simp add: wrap_def createProxy_def addEventListener_def Let_def)

lemma unwrapArg_keeps:
  "promiseMap (snd (unwrapArg data ep s)) = promiseMap s
   \<and> promises (snd (unwrapArg data ep s)) = promises s
   \<and> uniqueInRealmId (snd (unwrapArg data ep s)) = uniqueInRealmId s
   \<and> uuid_calls (snd (unwrapArg data ep s)) = uuid_calls s
   \<and> randomUUID (snd (unwrapArg data ep s)) = randomUUID s
   \<and> outbox (snd (unwrapArg data ep s)) = outbox s"
  by (simp add: unwrapArg_def Let_def case_prod_unfold js_get_keeps createChannel_keeps wrap_keeps)

lemma getId_fst_cong:
  "uniqueInRealmId t = uniqueInRealmId s \<Longrightarrow> uuid_calls t = uuid_calls s
   \<Longrightarrow> randomUUID t = randomUUID s \<Longrightarrow> fst (getId t) = fst (getId s)"
  by (simp add: getId_def)



text \<open>
  The steps of the handler from the call of \<open>p.res\<close> on, with the job: what they do
  to the promises and to the table.
\<close>

lemma resolve_step:
  fixes p res rid st
  defines "t \<equiv> (let (queued, s2) = resolve_promise p res st;
                     s3 = s2\<lparr>promiseMap := AList.delete rid (promiseMap s2)\<rparr>
                 in case queued of None \<Rightarrow> s3 | Some j \<Rightarrow> run_job j s3)"
  shows "(\<not> (p < length (promises st) \<and> promises st ! p = Pending)
            \<and> promises t = promises st \<and> promiseMap t = AList.delete rid (promiseMap st))
       \<or> (p < length (promises st) \<and> promises st ! p = Pending
            \<and> promises t = fulfil p res (promises st)
            \<and> promiseMap t = AList.delete rid (promiseMap st))
       \<or> (p < length (promises st) \<and> promises st ! p = Pending \<and> \<not> plain_value res
            \<and> promises t = (promises st)[p := Adopted res]
            \<and> promiseMap t = AList.delete rid (promiseMap st))
       \<or> (p < length (promises st) \<and> promises st ! p = Pending \<and> \<not> plain_value res
            \<and> promises t = (promises st)[p := Following (length (promises st))] @ [Pending]
            \<and> promiseMap t = AList.update (fst (getId st)) (length (promises st))
                                (AList.delete rid (promiseMap st)))"
proof (cases "p < length (promises st) \<and> promises st ! p = Pending")
  case False
  then show ?thesis by (auto simp: t_def resolve_promise_def)
next
  case pend: True
  show ?thesis
  proof (cases res)
    case (JProxy k)
    let ?g = "proxy_get k ''then'' st"
    note keep = proxy_get_keeps [of k "''then''" st]
    from proxy_get_result [of k "''then''" st] show ?thesis
    proof
      assume u: "fst ?g = JUndefined"
      then show ?thesis
        using pend JProxy keep
        by (simp add: t_def resolve_promise_def case_prod_unfold)
    next
      assume "\<exists>c. fst ?g = JProxy c"
      then obtain c where c: "fst ?g = JProxy c" ..
      let ?s3 = "(snd ?g)\<lparr>promises := (promises (snd ?g))[p := Adopted res],
                   promiseMap := AList.delete rid (promiseMap (snd ?g))\<rparr>"
      have t: "t = run_job (ThenJob p c) ?s3"
        using pend JProxy c keep by (simp add: t_def resolve_promise_def case_prod_unfold)
      have id: "fst (getId ?s3) = fst (getId st)"
        using keep by (intro getId_fst_cong) simp_all
      show ?thesis
      proof (cases "c < length (proxies ?s3) \<and> p_keyChain (proxies ?s3 ! c) \<noteq> []
                     \<and> last (p_keyChain (proxies ?s3 ! c)) = ''then''")
        case False
        then have "t = ?s3" using t by (auto simp: run_job_def)
        then show ?thesis using pend JProxy keep by simp
      next
        case True
        then have "promises t = (promises st)[p := Following (length (promises st))] @ [Pending]
            \<and> promiseMap t = AList.update (fst (getId st)) (length (promises st))
                                (AList.delete rid (promiseMap st))"
          using t pend keep id
          by (simp add: run_job_def proxy_apply_def case_prod_unfold Let_def createPromise_def
              postMessage_enchannel list_update_append1)
        then show ?thesis using pend JProxy by simp
      qed
    qed
  qed (use pend in \<open>auto simp: t_def resolve_promise_def\<close>)
qed

text \<open>What the handler of \<open>wrap\<close> does to the promises and to the table.\<close>

lemma wrap_listener_cases:
  fixes ep d s
  defines "t \<equiv> wrap_listener ep d s"
  defines "ps \<equiv> promises s"
  defines "rid \<equiv> get_prop d ''id''"
  shows "(promiseMap t = promiseMap s \<and> promises t = ps
           \<and> (map_of (promiseMap s) rid = None \<or> \<not> truthy d \<or> truthy (fst (js_get d ''channel'' s))
                \<or> assertValidRPCResponse d \<noteq> Inr ()
                \<or> (\<exists>e. fst (unwrapArg (get_prop d ''data'') ep s) = Inl e)))
   \<or> (\<exists>p res. map_of (promiseMap s) rid = Some p
        \<and> typeof d = ''object'' \<and> d \<noteq> JNull \<and> \<not> truthy (get_prop d ''channel'')
        \<and> get_prop d ''type'' = JStr ''response''
        \<and> fst (unwrapArg (get_prop d ''data'') ep s) = Inr res
        \<and> ((\<not> (p < length ps \<and> ps ! p = Pending)
               \<and> promises t = ps \<and> promiseMap t = AList.delete rid (promiseMap s))
           \<or> (p < length ps \<and> ps ! p = Pending
               \<and> promises t = fulfil p res ps \<and> promiseMap t = AList.delete rid (promiseMap s))
           \<or> (p < length ps \<and> ps ! p = Pending \<and> \<not> plain_value res
               \<and> promises t = ps[p := Adopted res]
               \<and> promiseMap t = AList.delete rid (promiseMap s))
           \<or> (p < length ps \<and> ps ! p = Pending \<and> \<not> plain_value res
               \<and> promises t = ps[p := Following (length ps)] @ [Pending]
               \<and> promiseMap t = AList.update (fst (getId s)) (length ps)
                                   (AList.delete rid (promiseMap s)))))"
proof (cases "truthy d \<and> \<not> truthy (fst (js_get d ''channel'' s))")
  case False
  then show ?thesis
    using js_get_keeps [of d "''channel''" s]
    by (auto simp: t_def ps_def wrap_listener_def case_prod_unfold Let_def)
next
  case c: True
  show ?thesis
  proof (cases "assertValidRPCResponse d")
    case (Inl e)
    then show ?thesis
      using c js_get_keeps [of d "''channel''" s]
      by (auto simp: t_def ps_def wrap_listener_def case_prod_unfold Let_def console_error_def)
  next
    case (Inr u)
    then have obj: "typeof d = ''object''" "d \<noteq> JNull" "get_prop d ''type'' = JStr ''response''"
      by (auto simp: assertValidRPCResponse_def split: if_splits)
    let ?u = "unwrapArg (get_prop d ''data'') ep s"
    note keep = unwrapArg_keeps [of "get_prop d ''data''" ep s]
    show ?thesis
    proof (cases "fst ?u")
      case (Inl e)
      then show ?thesis
        using c Inr obj keep
        by (auto simp: t_def ps_def wrap_listener_def case_prod_unfold console_error_def
            split: sum.splits)
    next
      case res: (Inr res)
      show ?thesis
      proof (cases "map_of (promiseMap s) rid")
        case None
        then show ?thesis
          using c Inr obj res keep
          by (auto simp: t_def ps_def rid_def wrap_listener_def case_prod_unfold split: sum.splits)
      next
        case (Some p)
        have t: "t = (let (queued, s2) = resolve_promise p res (snd ?u);
                          s3 = s2\<lparr>promiseMap := AList.delete rid (promiseMap s2)\<rparr>
                      in case queued of None \<Rightarrow> s3 | Some j \<Rightarrow> run_job j s3)"
          using c Inr obj res keep Some
          by (auto simp: t_def rid_def wrap_listener_def case_prod_unfold split: sum.splits)
        have id: "fst (getId (snd ?u)) = fst (getId s)"
          using keep by (intro getId_fst_cong) simp_all
        show ?thesis
          using resolve_step [where p = p and res = res and rid = rid and st = "snd ?u"] c obj res Some keep
          unfolding t [symmetric] id ps_def
          by (simp add: case_prod_unfold)
      qed
    qed
  qed
qed


subsection \<open>The request ids of a run\<close>

declare innermost.simps [simp del]

lemma innermost_envelope [simp]:
  "innermost (JObj [(''channel'', t), (''payload'', v)]) = innermost v"
  by (subst innermost.simps) simp

lemma innermost_enchannel: "innermost (enchannel ep v) = innermost v"
  by (induction ep arbitrary: v) simp_all

lemma innermost_bare:
  "map_of ps ''channel'' = None \<Longrightarrow> innermost (JObj ps) = JObj ps"
  by (subst innermost.simps) simp

text \<open>Steps that draw no id and post nothing, and steps that post no request.\<close>

lemma quiet_refl [simp]: "quiet s s"
  by (simp add: quiet_def)

lemma quiet_trans: "quiet s t \<Longrightarrow> quiet t u \<Longrightarrow> quiet s u"
  by (simp add: quiet_def)

lemma quiet_later: "quiet s t \<Longrightarrow> later s t"
  by (simp add: quiet_def later_def)

lemma quiet_replies: "quiet s t \<Longrightarrow> replies s t"
  by (simp add: quiet_def replies_def later_def)

lemma js_get_quiet: "quiet s (snd (js_get v p s))"
  by (simp add: quiet_def js_get_keeps)

lemma unwrapArg_quiet: "quiet s (snd (unwrapArg data ep s))"
  by (simp add: quiet_def unwrapArg_keeps)

lemma console_error_quiet [simp]: "quiet s (console_error l e t) = quiet s t"
  by (simp add: quiet_def console_error_def)

lemma resolve_promise_quiet: "quiet s (snd (resolve_promise p v s))"
  using proxy_get_keeps [of _ "''then''" s]
  by (simp add: quiet_def resolve_promise_def case_prod_unfold Let_def
      split: jsval.splits)

text \<open>The message that issuing a request posts is a request message with the next id.\<close>

lemma issue_request:
  "\<exists>m. outbox (snd (issue ep r s)) = outbox s @ [(base_of ep, enchannel ep m)]
        \<and> get_prop m ''id'' = fst (getId s) \<and> is_request m \<and> innermost m = m"
proof (cases r)
  case (Call keyChain args)
  let ?s2 = "snd (createPromise (fst (getId s)) (snd (getId s)))"
  show ?thesis
    using Call wrapArgs_keeps [of args ep ?s2]
    by (auto simp: proxy_apply_def case_prod_unfold Let_def postMessage_enchannel
        createPromise_def is_request_def innermost_bare)
next
  case (New keyChain args)
  let ?s2 = "snd (createPromise (fst (getId s)) (snd (getId s)))"
  show ?thesis
    using New wrapArgs_keeps [of args ep ?s2]
    by (auto simp: proxy_construct_def case_prod_unfold Let_def postMessage_enchannel
        createPromise_def is_request_def innermost_bare)
qed

lemma request_ids_quiet: "quiet s t \<Longrightarrow> request_ids s t = []"
  by (simp add: quiet_def request_ids_def)

lemma request_ids_replies: "replies s t \<Longrightarrow> request_ids s t = []"
  by (auto simp: replies_def request_ids_def)

lemma request_ids_issue: "request_ids s (snd (issue ep r s)) = [fst (getId s)]"
  using issue_request [of ep r s] by (auto simp: request_ids_def innermost_enchannel)

lemma quiet_issue_quiet:
  assumes "quiet s u" and "quiet (snd (issue ep r u)) t"
  shows "later s u \<and> later (snd (getId u)) t \<and> request_ids s t = [fst (getId u)]
    \<and> (\<exists>ms. outbox t = outbox s @ ms)"
proof -
  have a: "later (snd (getId u)) (snd (issue ep r u))"
    using issue_effect [of ep r u] by blast
  have b: "later (snd (issue ep r u)) t" using assms(2) by (rule quiet_later)
  have c: "request_ids s t = request_ids u (snd (issue ep r u))"
    using assms by (simp add: request_ids_def quiet_def)
  have d: "\<exists>ms. outbox t = outbox s @ ms"
    using issue_request [of ep r u] assms by (auto simp: quiet_def)
  show ?thesis
    using quiet_later [OF assms(1)] later_trans [OF a b] c d by (simp add: request_ids_issue)
qed

text \<open>
  The handler of \<open>wrap\<close> posts nothing, or one request: the await request of the job
  it queued.
\<close>

lemma run_job_posts:
  "quiet s (run_job j s) \<or> (\<exists>ep' r. quiet (snd (issue ep' r s)) (run_job j s))"
proof (cases j)
  case (ThenJob p c)
  show ?thesis
  proof (cases "c < length (proxies s) \<and> p_keyChain (proxies s ! c) \<noteq> []
             \<and> last (p_keyChain (proxies s ! c)) = ''then''")
    case True
    let ?ep = "p_ep (proxies s ! c)" and ?kc = "p_keyChain (proxies s ! c)"
    have "quiet (snd (issue ?ep (Call ?kc []) s)) (run_job j s)"
      using True ThenJob by (simp add: run_job_def case_prod_unfold Let_def quiet_def)
    then show ?thesis by blast
  next
    case False
    then show ?thesis using ThenJob by (auto simp: run_job_def)
  qed
qed

lemma wrap_listener_posts:
  "quiet s (wrap_listener ep d s)
   \<or> (\<exists>u ep' r. quiet s u \<and> quiet (snd (issue ep' r u)) (wrap_listener ep d s))"
proof -
  let ?P = "\<lambda>t. quiet s t \<or> (\<exists>u ep' r. quiet s u \<and> quiet (snd (issue ep' r u)) t)"
  let ?s0 = "snd (js_get d ''channel'' s)"
  let ?u = "unwrapArg (get_prop d ''data'') ep ?s0"
  have q0: "quiet s ?s0" by (rule js_get_quiet)
  have q1: "quiet s (snd ?u)"
    using quiet_trans [OF q0 unwrapArg_quiet] .
  have resolve: "?P (case fst (resolve_promise p res (snd ?u)) of
                       None \<Rightarrow> (snd (resolve_promise p res (snd ?u)))
                                 \<lparr>promiseMap := AList.delete rid
                                    (promiseMap (snd (resolve_promise p res (snd ?u))))\<rparr>
                     | Some j \<Rightarrow> run_job j ((snd (resolve_promise p res (snd ?u)))
                                 \<lparr>promiseMap := AList.delete rid
                                    (promiseMap (snd (resolve_promise p res (snd ?u))))\<rparr>))"
    for p res rid
  proof -
    let ?s3 = "(snd (resolve_promise p res (snd ?u)))
                 \<lparr>promiseMap := AList.delete rid (promiseMap (snd (resolve_promise p res (snd ?u))))\<rparr>"
    have q3: "quiet s ?s3"
      using q1 resolve_promise_quiet [of "snd ?u" p res] by (simp add: quiet_def)
    show ?thesis
    proof (cases "fst (resolve_promise p res (snd ?u))")
      case None
      then show ?thesis using q3 by simp
    next
      case (Some j)
      from run_job_posts [of ?s3 j] show ?thesis
      proof
        assume "quiet ?s3 (run_job j ?s3)"
        then show ?thesis using Some quiet_trans [OF q3] by simp
      next
        assume "\<exists>ep' r. quiet (snd (issue ep' r ?s3)) (run_job j ?s3)"
        then show ?thesis using Some q3 by auto
      qed
    qed
  qed
  show ?thesis
  proof (cases "truthy d \<and> \<not> truthy (fst (js_get d ''channel'' s))")
    case False
    then show ?thesis
      using q0 by (auto simp: wrap_listener_def case_prod_unfold Let_def)
  next
    case c: True
    show ?thesis
    proof (cases "assertValidRPCResponse d")
      case (Inl e)
      then show ?thesis
        using c q0 by (simp add: wrap_listener_def case_prod_unfold Let_def)
    next
      case (Inr x)
      show ?thesis
      proof (cases "fst ?u")
        case (Inl e)
        then show ?thesis
          using c Inr q1
          by (simp add: wrap_listener_def case_prod_unfold Let_def split: sum.splits)
      next
        case res: (Inr res)
        show ?thesis
        proof (cases "map_of (promiseMap (snd ?u)) (get_prop d ''id'')")
          case None
          then show ?thesis
            using c Inr res q1
            by (simp add: wrap_listener_def case_prod_unfold Let_def split: sum.splits)
        next
          case (Some p)
          show ?thesis
            using c Inr res Some resolve [where p = p and res = res and rid = "get_prop d ''id''"]
            by (simp add: wrap_listener_def case_prod_unfold Let_def split: sum.splits)
        qed
      qed
    qed
  qed
qed


text \<open>The handler of \<open>expose\<close> posts responses and error messages only.\<close>

lemma replies_trans: "replies s t \<Longrightarrow> replies t u \<Longrightarrow> replies s u"
  by (auto simp: replies_def intro: later_trans)

lemma wrapArg_replies: "replies s (snd (wrapArg a ep w s))"
  using wrapArg_later [of s a ep w] wrapArg_keeps [of a ep w s] by (simp add: replies_def)

lemma unwrapArgs_quiet: "quiet s (snd (unwrapArgs as ep s))"
proof (induction as arbitrary: s)
  case Nil
  then show ?case by simp
next
  case (Cons a as)
  show ?case
    using unwrapArg_quiet [of s a ep] Cons.IH [of "snd (unwrapArg a ep s)"]
    by (auto simp: case_prod_unfold split: sum.splits intro: quiet_trans)
qed

lemma post_reply:
  "replies s t \<Longrightarrow> \<not> is_request (innermost m) \<Longrightarrow> replies s (postMessage ep m t)"
  by (auto simp: replies_def postMessage_enchannel innermost_enchannel later_def)

lemma response_no_request [simp]: "\<not> is_request (innermost (response_msg rid enc))"
  by (simp add: response_msg_def innermost_bare is_request_def)

lemma expose_try_replies: "replies s (snd (expose_try h obj ep d s))"
proof -
  have r0: "replies s s" by (simp add: quiet_replies)
  have u: "replies s (snd (unwrapArgs as ep s))" for as
    by (rule quiet_replies [OF unwrapArgs_quiet])
  have w: "replies s (postMessage ep (response_msg rid (fst (wrapArg v ep b t)))
                        (snd (wrapArg v ep b t)))"
    if "replies s t" for v b t rid
    by (rule post_reply [OF replies_trans [OF that wrapArg_replies]]) simp
  show ?thesis
    using r0 u w [OF r0] w [OF u]
    by (simp add: expose_try_def case_prod_unfold Let_def
        split: sum.splits outcome.splits)
qed

lemma expose_catch_replies: "replies s t \<Longrightarrow> replies s (expose_catch d ep e t)"
proof -
  assume a: "replies s t"
  let ?s1 = "console_error ''Error processing RPC call:'' e t"
  let ?s2 = "snd (js_get d ''id'' ?s1)"
  let ?s3 = "snd (js_get e ''message'' ?s2)"
  have q: "quiet t ?s2" "quiet t ?s3"
    using js_get_quiet [of ?s1 d "''id''"] js_get_quiet [of ?s2 e "''message''"]
    by (simp_all add: quiet_def console_error_def)
  have r: "replies s ?s2" "replies s ?s3"
    using a q by (blast intro: replies_trans quiet_replies)+
  have "replies s (console_error l x ?s2)" for l x
    using r(1) by (simp add: replies_def console_error_def later_def)
  moreover have "replies s (postMessage ep (JObj [(''id'', rid), (''type'', JStr ''error''),
                                                  (''error'', msg)]) ?s3)" for rid msg
    by (rule post_reply [OF r(2)]) (simp add: innermost_bare is_request_def)
  ultimately show ?thesis
    by (simp add: expose_catch_def case_prod_unfold Let_def)
qed

lemma expose_listener_replies: "replies s (expose_listener h obj ep d s)"
proof -
  let ?s0 = "snd (js_get d ''channel'' s)"
  have r0: "replies s ?s0" by (rule quiet_replies [OF js_get_quiet])
  have r1: "replies s (snd (expose_try h obj ep d ?s0))"
    by (rule replies_trans [OF r0 expose_try_replies])
  show ?thesis
    using r0 r1 expose_catch_replies [OF r1] quiet_replies [of s s]
    by (simp add: expose_listener_def case_prod_unfold Let_def split: sum.splits)
qed

text \<open>
  A step of the realm posts at most one request; the request takes the next id of the
  allocator, which only moves forward.
\<close>

lemma step_posts:
  "later s (run_step x s) \<and> (\<exists>ms. outbox (run_step x s) = outbox s @ ms)
   \<and> (request_ids s (run_step x s) = []
        \<or> (\<exists>u. later s u \<and> later (snd (getId u)) (run_step x s)
                \<and> request_ids s (run_step x s) = [fst (getId u)]))"
proof (cases x)
  case (Issue ep r)
  show ?thesis
    using quiet_issue_quiet [of s s ep r "snd (issue ep r s)"] issue_later [of s ep r] Issue
    by (auto intro!: exI [of _ s])
next
  case (ToWrap ep d)
  from wrap_listener_posts [of s ep d] show ?thesis
  proof
    assume "quiet s (wrap_listener ep d s)"
    then show ?thesis
      using ToWrap by (simp add: quiet_later request_ids_quiet) (simp add: quiet_def)
  next
    assume "\<exists>u ep' r. quiet s u \<and> quiet (snd (issue ep' r u)) (wrap_listener ep d s)"
    then obtain u ep' r where u: "quiet s u" "quiet (snd (issue ep' r u)) (wrap_listener ep d s)"
      by blast
    have "later s (wrap_listener ep d s)"
      using quiet_later [OF u(1)] issue_later [of u ep' r] quiet_later [OF u(2)]
      by (blast intro: later_trans)
    then show ?thesis
      using quiet_issue_quiet [OF u] ToWrap by auto
  qed
next
  case (ToExpose h obj ep d)
  then show ?thesis
    using expose_listener_replies [of s h obj ep d] request_ids_replies [of s "expose_listener h obj ep d s"]
    by (auto simp: replies_def)
qed


lemma run_steps_later: "later s (run_steps xs s)"
proof (induction xs arbitrary: s)
  case Nil
  then show ?case by simp
next
  case (Cons x xs)
  show ?case
    using step_posts [of s x] Cons.IH [of "run_step x s"] by (auto intro: later_trans)
qed

lemma run_steps_outbox: "\<exists>ms. outbox (run_steps xs s) = outbox s @ ms"
proof (induction xs arbitrary: s)
  case Nil
  then show ?case by simp
next
  case (Cons x xs)
  show ?case
    using step_posts [of s x] Cons.IH [of "run_step x s"] by auto
qed

lemma request_ids_Cons:
  "request_ids s (run_steps xs (run_step x s))
     = request_ids s (run_step x s) @ request_ids (run_step x s) (run_steps xs (run_step x s))"
proof -
  obtain ms where ms: "outbox (run_step x s) = outbox s @ ms"
    using step_posts [of s x] by blast
  obtain ms' where ms': "outbox (run_steps xs (run_step x s)) = outbox (run_step x s) @ ms'"
    using run_steps_outbox [of xs "run_step x s"] by blast
  show ?thesis by (simp add: request_ids_def ms ms')
qed

lemma posted_ids_Cons:
  "posted_ids ep s (run_steps xs (run_step x s))
     = posted_ids ep s (run_step x s) @ posted_ids ep (run_step x s) (run_steps xs (run_step x s))"
proof -
  obtain ms where ms: "outbox (run_step x s) = outbox s @ ms"
    using step_posts [of s x] by blast
  obtain ms' where ms': "outbox (run_steps xs (run_step x s)) = outbox (run_step x s) @ ms'"
    using run_steps_outbox [of xs "run_step x s"] by blast
  show ?thesis by (simp add: posted_ids_def ms ms')
qed

lemma request_ids_same [simp]: "request_ids s s = []"
  by (simp add: request_ids_def)

lemma posted_ids_same [simp]: "posted_ids ep s s = []"
  by (simp add: posted_ids_def)

text \<open>When the steps are requests issued on one endpoint, every message posted is one.\<close>

lemma issued_requests:
  "request_ids s (run_steps (map (Issue ep) rs) s) = posted_ids ep s (run_steps (map (Issue ep) rs) s)
   \<and> length (request_ids s (run_steps (map (Issue ep) rs) s)) = length rs"
proof (induction rs arbitrary: s)
  case Nil
  then show ?case by simp
next
  case (Cons r rs)
  show ?case
    using Cons.IH [of "snd (issue ep r s)"]
      request_ids_Cons [of s "map (Issue ep) rs" "Issue ep r"]
      posted_ids_Cons [of ep s "map (Issue ep) rs" "Issue ep r"]
    by (auto simp: request_ids_issue issue_posted)
qed

text \<open>
  Every request id of a run is a number above the counter the run started from, or the
  text of an identifier drawn during the run.
\<close>

lemma getId_range:
  assumes "later s u" and "later (snd (getId u)) t"
  shows "(\<exists>a. fst (getId u) = JNum a \<and> uniqueInRealmId s < a \<and> a \<le> uniqueInRealmId t)
     \<or> (fst (getId u) = JStr (uuid_text (randomUUID s (uuid_calls u)))
          \<and> uuid_calls s \<le> uuid_calls u \<and> uuid_calls u < uuid_calls t)"
  using assms by (auto simp: getId_def later_def split: if_splits)

lemma request_ids_range:
  "v \<in> set (request_ids s (run_steps xs s)) \<Longrightarrow>
     (\<exists>a. v = JNum a \<and> uniqueInRealmId s < a) \<or>
     (\<exists>j. v = JStr (uuid_text (randomUUID s j)) \<and> uuid_calls s \<le> j
           \<and> j < uuid_calls (run_steps xs s))"
proof (induction xs arbitrary: s)
  case Nil
  then show ?case by simp
next
  case (Cons x xs)
  let ?s1 = "run_step x s"
  have l0: "later s ?s1" using step_posts [of s x] by blast
  have l2: "later ?s1 (run_steps xs ?s1)" by (rule run_steps_later)
  from Cons.prems have "v \<in> set (request_ids s ?s1) \<or> v \<in> set (request_ids ?s1 (run_steps xs ?s1))"
    by (simp add: request_ids_Cons)
  then show ?case
  proof
    assume v: "v \<in> set (request_ids s ?s1)"
    then obtain u where u: "later s u" "later (snd (getId u)) ?s1" "v = fst (getId u)"
      using step_posts [of s x] by auto
    from getId_range [OF u(1,2)] show ?thesis
      using u(3) l2 by (auto simp: later_def)
  next
    assume "v \<in> set (request_ids ?s1 (run_steps xs ?s1))"
    from Cons.IH [OF this] show ?thesis
      using l0 by (fastforce simp: later_def)
  qed
qed

lemma run_ids_distinct:
  "inj_on (randomUUID s) {uuid_calls s ..< uuid_calls (run_steps xs s)}
   \<Longrightarrow> distinct (request_ids s (run_steps xs s))"
proof (induction xs arbitrary: s)
  case Nil
  then show ?case by simp
next
  case (Cons x xs)
  let ?s1 = "run_step x s"
  let ?end = "uuid_calls (run_steps xs ?s1)"
  have l0: "later s ?s1" using step_posts [of s x] by blast
  have inj: "inj_on (randomUUID s) {uuid_calls s ..< ?end}" using Cons.prems by simp
  have inj': "inj_on (randomUUID ?s1) {uuid_calls ?s1 ..< ?end}"
    using l0 by (auto simp: later_def intro: inj_on_subset [OF inj])
  have rest: "distinct (request_ids ?s1 (run_steps xs ?s1))" by (rule Cons.IH [OF inj'])
  from step_posts [of s x]
  have "request_ids s ?s1 = []
      \<or> (\<exists>u. later s u \<and> later (snd (getId u)) ?s1 \<and> request_ids s ?s1 = [fst (getId u)])"
    by blast
  then show ?case
  proof
    assume "request_ids s ?s1 = []"
    then show ?thesis using rest by (simp add: request_ids_Cons)
  next
    assume "\<exists>u. later s u \<and> later (snd (getId u)) ?s1 \<and> request_ids s ?s1 = [fst (getId u)]"
    then obtain u where u: "later s u" "later (snd (getId u)) ?s1"
      "request_ids s ?s1 = [fst (getId u)]" by blast
    have fresh: "fst (getId u) \<notin> set (request_ids ?s1 (run_steps xs ?s1))"
    proof
      assume "fst (getId u) \<in> set (request_ids ?s1 (run_steps xs ?s1))"
      from request_ids_range [OF this] show False
      proof (elim disjE exE conjE)
        fix a assume "fst (getId u) = JNum a" "uniqueInRealmId ?s1 < a"
        then show False using getId_range [OF u(1,2)] by auto
      next
        fix j assume j: "fst (getId u) = JStr (uuid_text (randomUUID ?s1 j))"
          "uuid_calls ?s1 \<le> j" "j < ?end"
        from getId_range [OF u(1,2)] j(1)
        have g: "uuid_text (randomUUID s (uuid_calls u)) = uuid_text (randomUUID ?s1 j)"
          "uuid_calls s \<le> uuid_calls u" "uuid_calls u < uuid_calls ?s1"
          by auto
        have "randomUUID s (uuid_calls u) = randomUUID s j"
          using uuid_text_inj [OF g(1)] l0 by (simp add: later_def)
        then have "uuid_calls u = j"
          using inj g(2,3) j(2,3) by (auto simp: inj_on_def)
        then show False using g(3) j(2) by simp
      qed
    qed
    show ?thesis using rest fresh u(3) by (simp add: request_ids_Cons)
  qed
qed

lemma num_ids_append: "num_ids (vs @ ws) = num_ids vs @ num_ids ws"
  by (induction vs rule: num_ids.induct) simp_all

lemma num_ids_range: "a \<in> set (num_ids vs) \<Longrightarrow> JNum a \<in> set vs"
  by (induction vs rule: num_ids.induct) auto

lemma request_ids_increasing: "sorted_wrt (<) (num_ids (request_ids s (run_steps xs s)))"
proof (induction xs arbitrary: s)
  case Nil
  then show ?case by simp
next
  case (Cons x xs)
  let ?s1 = "run_step x s"
  have rest: "sorted_wrt (<) (num_ids (request_ids ?s1 (run_steps xs ?s1)))" by (rule Cons.IH)
  from step_posts [of s x]
  have "request_ids s ?s1 = []
      \<or> (\<exists>u. later s u \<and> later (snd (getId u)) ?s1 \<and> request_ids s ?s1 = [fst (getId u)])"
    by blast
  then show ?case
  proof
    assume "request_ids s ?s1 = []"
    then show ?thesis using rest by (simp add: request_ids_Cons)
  next
    assume "\<exists>u. later s u \<and> later (snd (getId u)) ?s1 \<and> request_ids s ?s1 = [fst (getId u)]"
    then obtain u where u: "later s u" "later (snd (getId u)) ?s1"
      "request_ids s ?s1 = [fst (getId u)]" by blast
    have above: "b < a" if "fst (getId u) = JNum b"
      "a \<in> set (num_ids (request_ids ?s1 (run_steps xs ?s1)))" for a b
    proof -
      have "JNum a \<in> set (request_ids ?s1 (run_steps xs ?s1))" using that(2) by (rule num_ids_range)
      from request_ids_range [OF this] have "uniqueInRealmId ?s1 < a" by auto
      then show ?thesis using getId_range [OF u(1,2)] that(1) by auto
    qed
    show ?thesis
    proof (cases "fst (getId u)")
      case (JNum b)
      then show ?thesis
        using rest above u(3) by (auto simp: request_ids_Cons num_ids_append)
    qed (use rest u(3) in \<open>simp_all add: request_ids_Cons num_ids_append\<close>)
  qed
qed

text \<open>
  C5. While the counter has not exceeded \<open>MAX_SAFE_INTEGER - 1000\<close>, \<open>getId\<close>
  increments the counter and returns it; above the threshold it returns the text of the
  next 128-bit identifier of \<open>crypto.randomUUID()\<close> and leaves the counter alone.
  A request issued on an endpoint posts one message for that endpoint, a request
  message that carries the id the allocator handed out; a sequence of requests issued
  on one endpoint posts one such message per request and nothing else. For any run of
  the realm (requests issued through proxies, on whatever endpoints, with messages
  delivered to the handlers of \<open>wrap\<close> and of \<open>expose\<close> in between), the ids of
  the request messages posted, whichever channel envelopes they travel in, are such
  that the numbers among them are strictly increasing, and they are pairwise distinct,
  the random identifiers drawn during the run being pairwise distinct (which is what
  their being cryptographically random gives).
\<close>

theorem request_ids_distinct:
  "(uniqueInRealmId s \<le> MAX_SAFE_INTEGER - 1000 \<longrightarrow>
      getId s = (JNum (uniqueInRealmId s + 1), s\<lparr>uniqueInRealmId := uniqueInRealmId s + 1\<rparr>))
   \<and> (uniqueInRealmId s > MAX_SAFE_INTEGER - 1000 \<longrightarrow>
      getId s = (JStr (uuid_text (randomUUID s (uuid_calls s))), s\<lparr>uuid_calls := uuid_calls s + 1\<rparr>))
   \<and> posted_ids ep s (snd (issue ep r s)) = [fst (getId s)]
   \<and> request_ids s (snd (issue ep r s)) = [fst (getId s)]
   \<and> length (posted_ids ep s (run_steps (map (Issue ep) rs) s)) = length rs
   \<and> posted_ids ep s (run_steps (map (Issue ep) rs) s)
       = request_ids s (run_steps (map (Issue ep) rs) s)
   \<and> sorted_wrt (<) (num_ids (request_ids s (run_steps xs s)))
   \<and> (inj_on (randomUUID s) {uuid_calls s ..< uuid_calls (run_steps xs s)} \<longrightarrow>
        distinct (request_ids s (run_steps xs s)))"
  using issued_requests [of s ep rs] request_ids_increasing [of s xs]
    run_ids_distinct [of s xs]
  by (auto simp: issue_posted request_ids_issue getId_def)

theorem request_ids_distinct_witness:
  "getId late_realm
     = (JNum (MAX_SAFE_INTEGER - 999), late_realm\<lparr>uniqueInRealmId := MAX_SAFE_INTEGER - 999\<rparr>)
   \<and> getId (snd (getId late_realm))
     = (JStr (uuid_text 0), snd (getId late_realm)\<lparr>uuid_calls := 1\<rparr>)
   \<and> map snd (outbox (run_steps late_steps late_realm))
       = [JObj [(''id'', JNum (MAX_SAFE_INTEGER - 999)), (''type'', JStr ''call''),
                (''keyChain'', JArr [JStr ''f'']),
                (''args'', JArr [JObj [(''type'', JStr ''any''), (''data'', JNum 1)]])],
          JObj [(''channel'', JNum 7),
                (''payload'', JObj [(''id'', JStr (uuid_text 0)), (''type'', JStr ''await''),
                                    (''keyChain'', JArr [])])],
          JObj [(''id'', JNum 1), (''type'', JStr ''response''),
                (''data'', JObj [(''type'', JStr ''any''), (''data'', JObj [(''n'', JNum 10)])])],
          JObj [(''id'', JStr (uuid_text 1)), (''type'', JStr ''construct''),
                (''keyChain'', JArr []), (''args'', JArr [])]]
   \<and> inj_on (randomUUID late_realm)
        {uuid_calls late_realm ..< uuid_calls (run_steps late_steps late_realm)}
   \<and> request_ids late_realm (run_steps late_steps late_realm)
       = [JNum (MAX_SAFE_INTEGER - 999), JStr (uuid_text 0), JStr (uuid_text 1)]
   \<and> distinct (request_ids late_realm (run_steps late_steps late_realm))
   \<and> posted_ids (Base 0) late_realm (run_steps (map (Issue (Base 0)) three_requests) late_realm)
       = [JNum (MAX_SAFE_INTEGER - 999), JStr (uuid_text 0), JStr (uuid_text 1)]"
proof -
  let ?s = "snd (getId late_realm)"
  let ?t = "run_steps late_steps late_realm"
  have u: "uniqueInRealmId late_realm = MAX_SAFE_INTEGER - 1000" "uuid_calls late_realm = 0"
    "randomUUID late_realm = counting_uuid" "outbox late_realm = []"
    by (simp_all add: late_realm_def init_realm_def)
  have u1: "uniqueInRealmId ?s = MAX_SAFE_INTEGER - 999" "uuid_calls ?s = 0"
    by (simp_all add: getId_def u)
  have r3: "randomUUID ?s = counting_uuid"
    by (simp add: getId_def u)
  have run: "map snd (outbox ?t)
       = [JObj [(''id'', JNum (MAX_SAFE_INTEGER - 999)), (''type'', JStr ''call''),
                (''keyChain'', JArr [JStr ''f'']),
                (''args'', JArr [JObj [(''type'', JStr ''any''), (''data'', JNum 1)]])],
          JObj [(''channel'', JNum 7),
                (''payload'', JObj [(''id'', JStr (uuid_text 0)), (''type'', JStr ''await''),
                                    (''keyChain'', JArr [])])],
          JObj [(''id'', JNum 1), (''type'', JStr ''response''),
                (''data'', JObj [(''type'', JStr ''any''), (''data'', JObj [(''n'', JNum 10)])])],
          JObj [(''id'', JStr (uuid_text 1)), (''type'', JStr ''construct''),
                (''keyChain'', JArr []), (''args'', JArr [])]]
     \<and> uuid_calls ?t = 2"
    by (simp add: late_steps_def late_wraped_def late_realm_def init_realm_def proxy_apply_def
        proxy_construct_def getId_def createPromise_def MAX_SAFE_INTEGER_def Let_def
        wrapArg_def markedObj_has_def counting_uuid_def wrap_listener_def
        assertValidRPCResponse_def unwrapArg_def createChannel_def wrap_def createProxy_def
        addEventListener_def resolve_promise_def proxy_get_def run_job_def
        expose_listener_def counter_new_def counter_root_def counter_host_def expose_try_def
        assertValidRPCCall_def assertValidKeyChain_def unsafe_key_def getKeyChain_def
        assertPropertyExists_def assertIsFunction_def response_msg_def)
  have ids: "request_ids late_realm ?t
       = [JNum (MAX_SAFE_INTEGER - 999), JStr (uuid_text 0), JStr (uuid_text 1)]"
  proof -
    have "request_ids late_realm ?t
        = map (\<lambda>m. get_prop m ''id'') (filter is_request (map innermost (map snd (outbox ?t))))"
      by (simp add: request_ids_def u comp_def)
    then show ?thesis
      unfolding conjunct1 [OF run] by (simp add: innermost_bare is_request_def)
  qed
  have "(of_nat x :: 128 word) = of_nat y \<Longrightarrow> x < 2 \<Longrightarrow> y < 2 \<Longrightarrow> x = y" for x y :: nat
    by (auto dest!: less_2_cases)
  then have inj: "inj_on (randomUUID late_realm) {uuid_calls late_realm ..< uuid_calls ?t}"
    unfolding conjunct2 [OF run] u by (auto simp: inj_on_def counting_uuid_def)
  have three: "request_ids late_realm (run_steps (map (Issue (Base 0)) three_requests) late_realm)
      = [JNum (MAX_SAFE_INTEGER - 999), JStr (uuid_text 0), JStr (uuid_text 1)]"
    by (simp add: request_ids_def u three_requests_def late_realm_def init_realm_def
        proxy_apply_def proxy_construct_def getId_def createPromise_def MAX_SAFE_INTEGER_def
        Let_def wrapArg_def markedObj_has_def counting_uuid_def innermost_bare is_request_def)
  have above: "getId ?s = (JStr (uuid_text 0), ?s\<lparr>uuid_calls := 1\<rparr>)"
    using request_ids_distinct [of ?s "Base 0" "Call [] []" three_requests late_steps]
    unfolding u1 r3 by (simp add: MAX_SAFE_INTEGER_def counting_uuid_def)
  have below: "getId late_realm
     = (JNum (MAX_SAFE_INTEGER - 999), late_realm\<lparr>uniqueInRealmId := MAX_SAFE_INTEGER - 999\<rparr>)
     \<and> distinct (request_ids late_realm ?t)
     \<and> posted_ids (Base 0) late_realm (run_steps (map (Issue (Base 0)) three_requests) late_realm)
       = request_ids late_realm (run_steps (map (Issue (Base 0)) three_requests) late_realm)"
    using request_ids_distinct [of late_realm "Base 0" "Call [] []" three_requests late_steps] inj
    unfolding u by auto
  show ?thesis
    using above below inj ids three run by auto
qed


subsection \<open>One pending-request table for the realm\<close>

lemma getId_defined [simp]: "fst (getId s) \<noteq> JUndefined"
  by (simp add: getId_def)






subsection \<open>Settlement of the promises\<close>












subsection \<open>The two scenarios the code does not follow\<close>

text \<open>No message makes the handler of \<open>wrap\<close> reject a promise.\<close>

lemma wrap_listener_never_rejects:
  "q < length (promises (wrap_listener ep d s))
   \<Longrightarrow> promises (wrap_listener ep d s) ! q = RejectedWith e
   \<Longrightarrow> q < length (promises s) \<and> promises s ! q = RejectedWith e"
  using wrap_listener_cases [of ep d s]
  by (auto simp: fulfil_nth nth_append nth_list_update split: if_splits)

text \<open>
  C1, on the code. The client calls \<open>wrap(E).boom()\<close>: request 1 is posted and its
  promise is pending. The dispatcher, whose \<open>boom\<close> throws \<open>Error("bad")\<close>,
  answers \<open>{id: 1, type: "error", error: "bad"}\<close>. On that message the handler of
  \<open>wrap\<close> throws in \<open>assertValidRPCResponse\<close> and logs: the promise stays
  pending and its entry stays in the table.
\<close>

theorem error_reply_not_rejected:
  "fst (wrap (Base 0) (init_realm same_uuid)) = JProxy 0
   \<and> fst (js_get (JProxy 0) ''boom'' (snd (wrap (Base 0) (init_realm same_uuid)))) = JProxy 1
   \<and> call_proxy 1 [] boom_client = Some (0, boom_pending)
   \<and> listeners boom_pending = [(Base 0, LWrap (Base 0))]
   \<and> outbox boom_pending = [(0, boom_call)]
   \<and> promises boom_pending = [Pending]
   \<and> promiseMap boom_pending = [(JNum 1, 0)]
   \<and> listeners (expose boom_root (Base 1) (init_realm same_uuid))
       = [(Base 1, LExpose boom_root (Base 1))]
   \<and> outbox (expose_listener boom_host boom_root (Base 1) boom_call
               (expose boom_root (Base 1) (init_realm same_uuid))) = [(1, boom_reply)]
   \<and> promises (wrap_listener (Base 0) boom_reply boom_pending) = [Pending]
   \<and> promiseMap (wrap_listener (Base 0) boom_reply boom_pending) = [(JNum 1, 0)]
   \<and> console (wrap_listener (Base 0) boom_reply boom_pending)
       = [(''Error processing RPC response:'',
           JError ''Invalid RPC response: missing id or invalid type'')]"
proof -
  have client: "boom_client =
      (init_realm same_uuid)\<lparr>listeners := [(Base 0, LWrap (Base 0))],
         proxies := [\<lparr>p_ep = Base 0, p_keyChain = [], p_getters = [(''boom'', 1)]\<rparr>,
                     \<lparr>p_ep = Base 0, p_keyChain = [''boom''], p_getters = []\<rparr>]\<rparr>"
    by (simp add: boom_client_def wrap_def createProxy_def addEventListener_def init_realm_def
        proxy_get_def)
  have pending: "boom_pending =
      boom_client\<lparr>uniqueInRealmId := 1, promiseMap := [(JNum 1, 0)], promises := [Pending],
                   outbox := [(0, boom_call)]\<rparr>"
    by (simp add: boom_pending_def client proxy_apply_def getId_def createPromise_def
        MAX_SAFE_INTEGER_def init_realm_def boom_call_def)
  have a: "fst (wrap (Base 0) (init_realm same_uuid)) = JProxy 0
     \<and> fst (js_get (JProxy 0) ''boom'' (snd (wrap (Base 0) (init_realm same_uuid)))) = JProxy 1"
    by (simp add: wrap_def createProxy_def addEventListener_def init_realm_def proxy_get_def)
  have b: "call_proxy 1 [] boom_client = Some (0, boom_pending)"
    by (simp add: call_proxy_def boom_pending_def) (simp add: client proxy_apply_def getId_def
        createPromise_def MAX_SAFE_INTEGER_def init_realm_def)
  have c: "outbox (expose_listener boom_host boom_root (Base 1) boom_call
               (expose boom_root (Base 1) (init_realm same_uuid))) = [(1, boom_reply)]"
    by (simp add: expose_listener_def expose_def addEventListener_def init_realm_def boom_call_def
        boom_root_def boom_host_def boom_reply_def expose_try_def assertValidRPCCall_def
        assertValidKeyChain_def unsafe_key_def getKeyChain_def assertPropertyExists_def
        assertIsFunction_def expose_catch_def console_error_def)
  have d: "wrap_listener (Base 0) boom_reply boom_pending =
      boom_pending\<lparr>console := [(''Error processing RPC response:'',
           JError ''Invalid RPC response: missing id or invalid type'')]\<rparr>"
    by (simp add: wrap_listener_def boom_reply_def assertValidRPCResponse_def console_error_def
        pending client init_realm_def)
  have e: "listeners (expose boom_root (Base 1) (init_realm same_uuid))
       = [(Base 1, LExpose boom_root (Base 1))]"
    by (simp add: expose_def addEventListener_def init_realm_def)
  show ?thesis
    using a b c e by (simp add: d) (simp add: pending client init_realm_def)
qed

text \<open>
  C2, on the code. The dispatcher handles \<open>new Counter(10)\<close>: the instance has no
  function among its own enumerable values, \<open>wrapArg\<close> overwrites the \<open>true\<close>
  it was called with, and the response carries the instance inline as
  \<open>{type: "any", data}\<close>.
\<close>

theorem constructed_instance_inlined:
  "hconstruct counter_host (JFun 0) [JNum 10] = Returns (JObj [(''n'', JNum 10)])
   \<and> object_values (JObj [(''n'', JNum 10)]) = Some [JNum 10]
   \<and> outbox (expose_listener counter_host counter_root (Base 0) counter_new
               (expose counter_root (Base 0) (init_realm same_uuid)))
       = [(0, JObj [(''id'', JNum 1), (''type'', JStr ''response''),
                    (''data'', JObj [(''type'', JStr ''any''),
                                     (''data'', JObj [(''n'', JNum 10)])])])]"
  by (simp add: expose_listener_def expose_def addEventListener_def init_realm_def counter_new_def
      counter_root_def counter_host_def expose_try_def assertValidRPCCall_def
      assertValidKeyChain_def unsafe_key_def getKeyChain_def assertPropertyExists_def
      assertIsFunction_def unwrapArg_def wrapArg_def response_msg_def)

end
